theory Spec2Isabelle
  imports Main "HOL-Library.Word"
begin

unbundle bit_operations_syntax

section \<open>The TCP server of TcpServer.ino\<close>

text \<open>
  A shallow embedding of \<^verbatim>\<open>src/Firmware/RTK_Everywhere/TcpServer.ino\<close>. The file's
  global variables are the fields of one record, every routine takes the record and
  returns the updated one, and every \<^verbatim>\<open>for\<close> loop over the client table is a
  recursion over the indices \<open>0 ..< TCP_SERVER_MAX_CLIENTS\<close>.

  Integer types follow the source: \<^verbatim>\<open>uint8_t\<close> is \<open>8 word\<close>, \<^verbatim>\<open>uint16_t\<close> is
  \<open>16 word\<close>, \<^verbatim>\<open>uint32_t\<close> is \<open>32 word\<close>. The \<^verbatim>\<open>int32_t\<close> locals of
  \<^verbatim>\<open>tcpServerSendData\<close> hold sums and differences of at most three 16-bit values, which
  never leave the 32-bit range, so they are \<open>int\<close>; every conversion back to 16 bits is
  written out with \<open>word_of_int\<close>.

  Declarations that live in other files of the firmware are taken as follows.
  \<^item> \<^verbatim>\<open>RING_BUFFER_OFFSET\<close> and \<^verbatim>\<open>settings.gnssHandlerBufferSize\<close> are 16-bit unsigned,
    like the local \<^verbatim>\<open>uint16_t tail\<close> that every table entry is copied into.
  \<^item> \<^verbatim>\<open>PERIODIC_DISPLAY(x)\<close> tests and \<^verbatim>\<open>PERIODIC_CLEAR(x)\<close> resets one request flag per
    \<^verbatim>\<open>PD_\<close> constant; the three flags used here are three boolean fields.
  \<^item> \<^verbatim>\<open>EQ_RTK_MODE(tcpServerMode)\<close> is the input \<open>rtkModeMatches\<close> and
    \<^verbatim>\<open>NEQ_RTK_MODE(tcpServerMode)\<close> its negation.
  \<^item> \<^verbatim>\<open>DMW_st(routine, state)\<close> is a debug macro; the flag \<open>dmwEnabled\<close> says whether it
    expands to the call \<^verbatim>\<open>routine(state)\<close> or to nothing.
  \<^item> The answers of the network layer, of \<^verbatim>\<open>connected()\<close> and of the clock during one
    call of \<^verbatim>\<open>tcpServerUpdate\<close> are the fields of the record \<open>env\<close>; all reads of
    \<^verbatim>\<open>millis()\<close> in one call see one value. What \<^verbatim>\<open>write\<close> returns is the
    parameter \<open>sockWrite\<close> of the two send routines.
  \<^item> The two tasks that call these routines do not interleave: each call runs to its end.
  Console output is not modelled, except for the message of \<^verbatim>\<open>reportFatalError\<close>.
\<close>

subsection \<open>Constants\<close>

definition TCP_SERVER_MAX_CLIENTS :: nat where
  "TCP_SERVER_MAX_CLIENTS = 4"

definition TCP_SERVER_CLIENT_DATA_TIMEOUT :: "32 word" where
  "TCP_SERVER_CLIENT_DATA_TIMEOUT = 15 * 1000"

definition TCP_SERVER_STATE_OFF :: "8 word" where
  "TCP_SERVER_STATE_OFF = 0"

definition TCP_SERVER_STATE_NETWORK_STARTED :: "8 word" where
  "TCP_SERVER_STATE_NETWORK_STARTED = 1"

definition TCP_SERVER_STATE_RUNNING :: "8 word" where
  "TCP_SERVER_STATE_RUNNING = 2"

definition TCP_SERVER_STATE_MAX :: "8 word" where
  "TCP_SERVER_STATE_MAX = 3"

subsection \<open>Data\<close>

type_synonym ip_address = "32 word"

text \<open>
  A \<^verbatim>\<open>NetworkClient\<close> object. \<open>stopped\<close> becomes true at the first \<^verbatim>\<open>stop()\<close>;
  \<open>writes\<close> lists the calls of \<^verbatim>\<open>write(&ringBuffer[offset], length)\<close> made on the
  object, oldest first, as pairs \<open>(offset, length)\<close>.
\<close>

record client =
  remoteIP :: ip_address
  stopped :: bool
  writes :: "(16 word \<times> 16 word) list"

record settings_t =
  debugTcpServer :: bool
  enableTcpServer :: bool
  gnssHandlerBufferSize :: "16 word"
  tcpServerPort :: "16 word"

text \<open>
  The globals. A pointer is an \<open>option\<close>: \<open>None\<close> is \<^verbatim>\<open>nullptr\<close>, which is what the
  static arrays hold before the first assignment. \<open>tcpServer = Some p\<close> is a listener
  on port \<open>p\<close>. \<open>networkUser\<close> says whether \<^verbatim>\<open>NETWORK_USER_TCP_SERVER\<close> holds the
  network (between \<^verbatim>\<open>networkUserOpen\<close> and \<^verbatim>\<open>networkUserClose\<close>).
\<close>

record state =
  settings :: settings_t
  inMainMenu :: bool
  dmwEnabled :: bool
  pdTcpServerState :: bool
  pdTcpServerData :: bool
  pdTcpServerClientData :: bool
  onlineTcpServer :: bool
  networkUser :: bool
  tcpServer :: "16 word option"
  tcpServerState :: "8 word"
  tcpServerTimer :: "32 word"
  tcpServerClientConnected :: "8 word"
  tcpServerClientDataSent :: "8 word"
  tcpServerClientWriteError :: "8 word"
  tcpServerClient :: "client option list"
  tcpServerClientIpAddress :: "ip_address list"
  tcpServerClientTails :: "16 word list"

text \<open>
  What the surroundings answer during one call of \<^verbatim>\<open>tcpServerUpdate\<close>: the clock, the
  network layer, the allocator, \<^verbatim>\<open>connected()\<close> of each client, and the remote addresses
  of the connections waiting at the listener (each \<^verbatim>\<open>available()\<close> takes the first).
\<close>

record env =
  millis :: "32 word"
  rtkModeMatches :: bool
  wifiIsConnected :: bool
  networkUserOpen :: bool
  networkIsShuttingDown :: bool
  networkUserConnected :: bool
  serverAllocated :: bool
  clientConnected :: "nat \<Rightarrow> bool"
  incoming :: "ip_address list"

text \<open>
  A call either returns or does not: \<^verbatim>\<open>reportFatalError\<close> is a \<^verbatim>\<open>while (1)\<close> that
  prints its message every 15 seconds and has no exit, and a member call through a null
  pointer has no defined behaviour.
\<close>

datatype fault = Halted string | NullPointer

definition reportFatalError :: "string \<Rightarrow> fault + 'a" where
  "reportFatalError errorMsg = Inl (Halted errorMsg)"

text \<open>Sequencing of calls that may not return.\<close>

definition andThen :: "fault + 'a \<Rightarrow> ('a \<Rightarrow> fault + 'b) \<Rightarrow> fault + 'b" where
  "andThen m f = (case m of Inl e \<Rightarrow> Inl e | Inr x \<Rightarrow> f x)"

text \<open>A \<^verbatim>\<open>for\<close> loop without \<^verbatim>\<open>break\<close> over the given indices.\<close>

fun forEach :: "('i \<Rightarrow> 'a \<Rightarrow> fault + 'a) \<Rightarrow> 'i list \<Rightarrow> 'a \<Rightarrow> fault + 'a" where
  "forEach body [] s = Inr s"
| "forEach body (index # rest) s = andThen (body index s) (forEach body rest)"

text \<open>\<^verbatim>\<open>1 << index\<close>, as far as it reaches into a \<^verbatim>\<open>uint8_t\<close>.\<close>

definition slotMask :: "nat \<Rightarrow> 8 word" where
  "slotMask index = push_bit index 1"

text \<open>\<^verbatim>\<open>flags & (1 << index)\<close> as a condition.\<close>

definition isSet :: "8 word \<Rightarrow> nat \<Rightarrow> bool" where
  "isSet flags index = (flags AND slotMask index \<noteq> 0)"

text \<open>\<^verbatim>\<open>debugTcpServer || PERIODIC_DISPLAY(pd)) && (!inMainMenu)\<close>, for a flag \<open>pd\<close>.\<close>

definition debugOr :: "state \<Rightarrow> bool \<Rightarrow> bool" where
  "debugOr s pd = ((debugTcpServer (settings s) \<or> pd) \<and> \<not> inMainMenu s)"

text \<open>A statement guarded by \<^verbatim>\<open>if (condition)\<close> with no \<^verbatim>\<open>else\<close>.\<close>

definition whenDo :: "bool \<Rightarrow> (state \<Rightarrow> state) \<Rightarrow> state \<Rightarrow> state" where
  "whenDo condition statement s = (if condition then statement s else s)"

text \<open>\<^verbatim>\<open>PERIODIC_CLEAR\<close> of the three display requests.\<close>

definition clearPdState :: "state \<Rightarrow> state" where
  "clearPdState s = s\<lparr>pdTcpServerState := False\<rparr>"

definition clearPdData :: "state \<Rightarrow> state" where
  "clearPdData s = s\<lparr>pdTcpServerData := False\<rparr>"

definition clearPdClientData :: "state \<Rightarrow> state" where
  "clearPdClientData s = s\<lparr>pdTcpServerClientData := False\<rparr>"

subsection \<open>discardTcpServerBytes\<close>

definition discardSlot :: "16 word \<Rightarrow> 16 word \<Rightarrow> nat \<Rightarrow> state \<Rightarrow> state" where
  "discardSlot previousTail newTail index s =
     (let tail = tcpServerClientTails s ! index in
      if previousTail < newTail then
        (if tail \<ge> previousTail \<and> tail < newTail
         then s\<lparr>tcpServerClientTails := (tcpServerClientTails s)[index := newTail]\<rparr>
         else s)
      else
        (if tail \<ge> previousTail \<or> tail < newTail
         then s\<lparr>tcpServerClientTails := (tcpServerClientTails s)[index := newTail]\<rparr>
         else s))"

definition discardTcpServerBytes :: "16 word \<Rightarrow> 16 word \<Rightarrow> state \<Rightarrow> state" where
  "discardTcpServerBytes previousTail newTail s =
     fold (discardSlot previousTail newTail) [0 ..< TCP_SERVER_MAX_CLIENTS] s"

text \<open>
  The circular range \<open>[a, b)\<close> of a buffer of \<open>C\<close> bytes, in the words of the
  specification: the offsets reached from \<open>a\<close> in fewer steps than \<open>b\<close> is.
\<close>

definition inCircularRange :: "int \<Rightarrow> int \<Rightarrow> int \<Rightarrow> int \<Rightarrow> bool" where
  "inCircularRange C a b t = ((t - a) mod C < (b - a) mod C)"

text \<open>
  What \<open>discardSlot\<close> stores for a slot whose tail is \<open>tail\<close>: the two branches
  of the source, as one function of the old tail.
\<close>

definition moved :: "16 word \<Rightarrow> 16 word \<Rightarrow> 16 word \<Rightarrow> 16 word" where
  "moved previousTail newTail tail =
     (if (if previousTail < newTail then tail \<ge> previousTail \<and> tail < newTail
          else tail \<ge> previousTail \<or> tail < newTail)
      then newTail else tail)"

text \<open>
  The invariant of the client table: the three arrays have their declared size, and a
  slot marked connected has a client object (the accept path stores the pointer before
  it sets the bit).
\<close>

definition tablesOk :: "state \<Rightarrow> bool" where
  "tablesOk s =
     (length (tcpServerClient s) = TCP_SERVER_MAX_CLIENTS
      \<and> length (tcpServerClientIpAddress s) = TCP_SERVER_MAX_CLIENTS
      \<and> length (tcpServerClientTails s) = TCP_SERVER_MAX_CLIENTS
      \<and> (\<forall>index \<in> set [0 ..< TCP_SERVER_MAX_CLIENTS].
            isSet (tcpServerClientConnected s) index \<longrightarrow> tcpServerClient s ! index \<noteq> None))"

subsection \<open>tcpServerClientSendData\<close>

text \<open>
  \<open>sockWrite index length\<close> is the \<^verbatim>\<open>size_t\<close> that \<^verbatim>\<open>write\<close> returns when slot
  \<open>index\<close> is asked to send \<open>len\<close> bytes (the parameter \<^verbatim>\<open>length\<close>). The source
  stores it in the \<^verbatim>\<open>uint16_t length\<close>, so only its low 16 bits are tested and returned. \<open>offset\<close> is the
  place of \<^verbatim>\<open>data\<close> in the ring buffer.
\<close>

definition tcpServerClientSendData ::
  "(nat \<Rightarrow> 16 word \<Rightarrow> 32 word) \<Rightarrow> nat \<Rightarrow> 16 word \<Rightarrow> 16 word \<Rightarrow> state \<Rightarrow> fault + (int \<times> state)" where
  "tcpServerClientSendData sockWrite index offset len s =
     (case tcpServerClient s ! index of
        None \<Rightarrow> Inl NullPointer
      | Some c \<Rightarrow>
          (let c1 = c\<lparr>writes := writes c @ [(offset, len)]\<rparr>;
               s1 = s\<lparr>tcpServerClient := (tcpServerClient s)[index := Some c1]\<rparr>;
               len1 = (ucast (sockWrite index len) :: 16 word)
           in if len1 > 0 then
                (let s2 = s1\<lparr>tcpServerClientDataSent :=
                               tcpServerClientDataSent s1 OR slotMask index\<rparr>;
                     s3 = whenDo (debugOr s2 (pdTcpServerClientData s2)) clearPdClientData s2
                 in Inr (uint len1, s3))
              else
                (let s2 = whenDo (debugOr s1 (pdTcpServerClientData s1)) clearPdClientData s1;
                     s3 = s2\<lparr>tcpServerClient :=
                               (tcpServerClient s2)[index := Some (c1\<lparr>stopped := True\<rparr>)],
                             tcpServerClientConnected :=
                               tcpServerClientConnected s2 AND NOT (slotMask index),
                             tcpServerClientWriteError :=
                               tcpServerClientWriteError s2 OR slotMask index\<rparr>
                 in Inr (0, s3))))"

subsection \<open>tcpServerSendData\<close>

text \<open>
  \<^verbatim>\<open>bytesToSend = dataHead - tail; if (bytesToSend < 0) bytesToSend += bufferSize;\<close>
  which the source computes before and after the write.
\<close>

definition bytesBehind :: "16 word \<Rightarrow> 16 word \<Rightarrow> 16 word \<Rightarrow> int" where
  "bytesBehind bufferSize dataHead tail =
     (let bytesToSend = uint dataHead - uint tail
      in if bytesToSend < 0 then bytesToSend + uint bufferSize else bytesToSend)"

text \<open>
  \<^verbatim>\<open>if ((tail + bytesToSend) > bufferSize) bytesToSend = bufferSize - tail;\<close>
  the run from \<open>tail\<close> stops at the end of the buffer.
\<close>

definition clipToEnd :: "16 word \<Rightarrow> 16 word \<Rightarrow> int \<Rightarrow> int" where
  "clipToEnd bufferSize tail bytesToSend =
     (if uint tail + bytesToSend > uint bufferSize then uint bufferSize - uint tail
      else bytesToSend)"

text \<open>
  \<^verbatim>\<open>tail += bytesToSend; if (tail >= bufferSize) tail -= bufferSize;\<close>
  on the \<^verbatim>\<open>uint16_t tail\<close>.
\<close>

definition advanceTail :: "16 word \<Rightarrow> 16 word \<Rightarrow> int \<Rightarrow> 16 word" where
  "advanceTail bufferSize tail bytesToSend =
     (let tail1 = (word_of_int (uint tail + bytesToSend) :: 16 word)
      in if tail1 \<ge> bufferSize then tail1 - bufferSize else tail1)"

text \<open>The body of the loop, on the pair of \<^verbatim>\<open>usedSpace\<close> and the globals.\<close>

definition sendSlot ::
  "(nat \<Rightarrow> 16 word \<Rightarrow> 32 word) \<Rightarrow> 16 word \<Rightarrow> nat \<Rightarrow> int \<times> state \<Rightarrow> fault + (int \<times> state)" where
  "sendSlot sockWrite dataHead index us =
     (let usedSpace = fst us;
          s = snd us;
          bufferSize = gnssHandlerBufferSize (settings s);
          tail = tcpServerClientTails s ! index
      in if \<not> isSet (tcpServerClientConnected s) index then
           Inr (usedSpace, s\<lparr>tcpServerClientTails := (tcpServerClientTails s)[index := dataHead]\<rparr>)
         else
           (let bytesToSend = bytesBehind bufferSize dataHead tail
            in if bytesToSend > 0 then
                 andThen (tcpServerClientSendData sockWrite index tail
                            (word_of_int (clipToEnd bufferSize tail bytesToSend)) s)
                   (\<lambda>(bytesToSend1, s1).
                      let tail1 = advanceTail bufferSize tail bytesToSend1;
                          bytesToSend2 = bytesBehind bufferSize dataHead tail1;
                          usedSpace1 = (if usedSpace < bytesToSend2 then bytesToSend2 else usedSpace)
                      in Inr (usedSpace1,
                              s1\<lparr>tcpServerClientTails := (tcpServerClientTails s1)[index := tail1]\<rparr>))
               else
                 Inr (usedSpace, s\<lparr>tcpServerClientTails := (tcpServerClientTails s)[index := tail]\<rparr>)))"

definition tcpServerSendData ::
  "(nat \<Rightarrow> 16 word \<Rightarrow> 32 word) \<Rightarrow> 16 word \<Rightarrow> state \<Rightarrow> fault + (int \<times> state)" where
  "tcpServerSendData sockWrite dataHead s =
     forEach (sendSlot sockWrite dataHead) [0 ..< TCP_SERVER_MAX_CLIENTS] (0, s)"

text \<open>
  The unread byte count of a slot in the words of the specification:
  \<open>(producerHead - tail) mod C\<close>.
\<close>

definition unread :: "int \<Rightarrow> int \<Rightarrow> int \<Rightarrow> int" where
  "unread C producerHead tail = (producerHead - tail) mod C"

subsection \<open>tcpServerSetState\<close>

definition tcpServerSetState :: "8 word \<Rightarrow> state \<Rightarrow> fault + state" where
  "tcpServerSetState newState s =
     (let s1 = s\<lparr>tcpServerState := newState\<rparr>
      in if debugOr s1 (pdTcpServerState s1) then
           (let s2 = clearPdState s1
            in if newState \<ge> TCP_SERVER_STATE_MAX
               then reportFatalError ''Unknown TCP Server state''
               else Inr s2)
         else Inr s1)"

subsection \<open>tcpServerStart\<close>

definition tcpServerStart :: "env \<Rightarrow> state \<Rightarrow> bool \<times> state" where
  "tcpServerStart e s =
     (if serverAllocated e
      then (True, s\<lparr>tcpServer := Some (tcpServerPort (settings s)), onlineTcpServer := True\<rparr>)
      else (False, s\<lparr>tcpServer := None\<rparr>))"

subsection \<open>tcpServerStopClient\<close>

text \<open>
  The debug block reads \<^verbatim>\<open>connected()\<close> and the clock only to choose what to print; it
  dereferences the same pointer as the \<^verbatim>\<open>stop()\<close> after it.
\<close>

definition tcpServerStopClient :: "nat \<Rightarrow> state \<Rightarrow> fault + state" where
  "tcpServerStopClient index s =
     (case tcpServerClient s ! index of
        None \<Rightarrow> Inl NullPointer
      | Some c \<Rightarrow>
          (let s1 = whenDo (debugOr s (pdTcpServerData s)) clearPdData s
           in Inr (s1\<lparr>tcpServerClient := (tcpServerClient s1)[index := Some (c\<lparr>stopped := True\<rparr>)],
                      tcpServerClientConnected :=
                        tcpServerClientConnected s1 AND NOT (slotMask index),
                      tcpServerClientWriteError :=
                        tcpServerClientWriteError s1 AND NOT (slotMask index)\<rparr>)))"

subsection \<open>tcpServerStop\<close>

definition tcpServerStop :: "env \<Rightarrow> state \<Rightarrow> fault + state" where
  "tcpServerStop e s =
     (let s1 = whenDo (onlineTcpServer s) (\<lambda>s. s\<lparr>onlineTcpServer := False\<rparr>) s
      in andThen (if tcpServerClientConnected s1 \<noteq> 0
                  then forEach tcpServerStopClient [0 ..< TCP_SERVER_MAX_CLIENTS] s1
                  else Inr s1)
           (\<lambda>s2.
              let s3 = whenDo (tcpServer s2 \<noteq> None) (\<lambda>s. s\<lparr>tcpServer := None\<rparr>) s2
              in if tcpServerState s3 \<noteq> TCP_SERVER_STATE_OFF then
                   andThen (tcpServerSetState TCP_SERVER_STATE_OFF (s3\<lparr>networkUser := False\<rparr>))
                     (\<lambda>s4. Inr (s4\<lparr>tcpServerTimer := millis e\<rparr>))
                 else Inr s3))"

subsection \<open>tcpServerUpdate\<close>

text \<open>The first loop of the running state: one client of the table.\<close>

definition checkClient :: "env \<Rightarrow> nat \<Rightarrow> state \<Rightarrow> fault + state" where
  "checkClient e index s =
     (if isSet (tcpServerClientConnected s) index then
        (case tcpServerClient s ! index of
           None \<Rightarrow> Inl NullPointer
         | Some c \<Rightarrow>
             (let connected = clientConnected e index;
                  dataSent = (millis e - tcpServerTimer s < TCP_SERVER_CLIENT_DATA_TIMEOUT
                              \<or> isSet (tcpServerClientDataSent s) index)
              in if connected \<and> dataSent then
                   Inr (whenDo (pdTcpServerData s \<and> \<not> inMainMenu s) clearPdData s)
                 else tcpServerStopClient index s))
      else Inr s)"

text \<open>
  The second loop, which ends at the first free slot that finds no connection waiting.
  \<open>pending\<close> are the connections still waiting at the listener.
\<close>

function acceptClients :: "nat \<Rightarrow> ip_address list \<Rightarrow> state \<Rightarrow> fault + state" where
  "acceptClients index pending s =
     (if index < TCP_SERVER_MAX_CLIENTS then
        (if \<not> isSet (tcpServerClientConnected s) index then
           (case tcpServer s of
              None \<Rightarrow> Inl NullPointer
            | Some port \<Rightarrow>
                (case pending of
                   [] \<Rightarrow> Inr s
                 | ip # rest \<Rightarrow>
                     (let s1 = s\<lparr>tcpServerClient := (tcpServerClient s)
                                     [index := Some \<lparr>remoteIP = ip, stopped = False, writes = []\<rparr>],
                                 tcpServerClientIpAddress := (tcpServerClientIpAddress s)[index := ip],
                                 tcpServerClientConnected :=
                                   tcpServerClientConnected s OR slotMask index,
                                 tcpServerClientDataSent :=
                                   tcpServerClientDataSent s OR slotMask index\<rparr>;
                          s2 = whenDo (debugOr s1 (pdTcpServerData s1)) clearPdData s1
                      in acceptClients (index + 1) rest s2)))
         else acceptClients (index + 1) pending s)
      else Inr s)"
  by pat_completeness auto
termination
  by (relation "measure (\<lambda>(index, pending, s). TCP_SERVER_MAX_CLIENTS - index)") auto

declare acceptClients.simps [simp del]

text \<open>The \<^verbatim>\<open>switch (tcpServerState)\<close>.\<close>

definition tcpServerSwitch :: "env \<Rightarrow> state \<Rightarrow> fault + state" where
  "tcpServerSwitch e s =
     (if tcpServerState s = TCP_SERVER_STATE_OFF then
        (if rtkModeMatches e \<and> enableTcpServer (settings s) \<and> \<not> wifiIsConnected e then
           (if networkUserOpen e
            then tcpServerSetState TCP_SERVER_STATE_NETWORK_STARTED (s\<lparr>networkUser := True\<rparr>)
            else Inr s)
         else Inr s)
      else if tcpServerState s = TCP_SERVER_STATE_NETWORK_STARTED then
        (if networkIsShuttingDown e then tcpServerStop e s
         else if networkUserConnected e then
           (if millis e - tcpServerTimer s \<ge> 1 * 1000 then
              (let (started, s1) = tcpServerStart e (s\<lparr>tcpServerTimer := millis e\<rparr>)
               in if started then tcpServerSetState TCP_SERVER_STATE_RUNNING s1 else Inr s1)
            else Inr s)
         else Inr s)
      else if tcpServerState s = TCP_SERVER_STATE_RUNNING then
        (if \<not> enableTcpServer (settings s) \<or> networkIsShuttingDown e then
           tcpServerStop e (whenDo (debugOr s (pdTcpServerData s)) clearPdData s)
         else
           andThen (forEach (checkClient e) [0 ..< TCP_SERVER_MAX_CLIENTS] s)
             (\<lambda>s1. andThen (acceptClients 0 (incoming e) s1)
                (\<lambda>s2. Inr (whenDo (millis e - tcpServerTimer s2 \<ge> TCP_SERVER_CLIENT_DATA_TIMEOUT)
                             (\<lambda>s. s\<lparr>tcpServerTimer := millis e, tcpServerClientDataSent := 0\<rparr>)
                             s2))))
      else Inr s)"

definition tcpServerUpdate :: "env \<Rightarrow> state \<Rightarrow> fault + state" where
  "tcpServerUpdate e s =
     andThen (if dmwEnabled s then tcpServerSetState (tcpServerState s) s else Inr s)
       (\<lambda>s1. andThen (if (\<not> rtkModeMatches e \<or> \<not> enableTcpServer (settings s1))
                          \<and> tcpServerState s1 > TCP_SERVER_STATE_OFF
                       then tcpServerStop e s1 else Inr s1)
          (\<lambda>s2. andThen (tcpServerSwitch e s2)
             (\<lambda>s3. if pdTcpServerState s3 \<and> \<not> inMainMenu s3
                    then tcpServerSetState (tcpServerState s3) s3 else Inr s3)))"

subsection \<open>tcpServerZeroTail\<close>

definition tcpServerZeroTail :: "state \<Rightarrow> state" where
  "tcpServerZeroTail s =
     fold (\<lambda>index s. s\<lparr>tcpServerClientTails := (tcpServerClientTails s)[index := 0]\<rparr>)
       [0 ..< TCP_SERVER_MAX_CLIENTS] s"

subsection \<open>The maximum of the specification\<close>

text \<open>
  The figure the specification asks for: the largest unread count over the occupied
  slots, 0 when none is occupied. \<open>occupied\<close> is the connected mask and \<open>tails\<close>
  are the tails after the sends.
\<close>

definition maxUnread :: "int \<Rightarrow> int \<Rightarrow> 8 word \<Rightarrow> 16 word list \<Rightarrow> int" where
  "maxUnread C producerHead occupied tails =
     Max (insert 0 ((\<lambda>index. unread C producerHead (uint (tails ! index)))
                    ` {index \<in> set [0 ..< TCP_SERVER_MAX_CLIENTS]. isSet occupied index}))"

subsection \<open>Relations between states\<close>

text \<open>A slot with the same tail, client and bits in two states.\<close>

definition sameSlot :: "state \<Rightarrow> state \<Rightarrow> nat \<Rightarrow> bool" where
  "sameSlot s s' k =
     (tcpServerClientTails s' ! k = tcpServerClientTails s ! k
      \<and> tcpServerClient s' ! k = tcpServerClient s ! k
      \<and> isSet (tcpServerClientConnected s') k = isSet (tcpServerClientConnected s) k
      \<and> isSet (tcpServerClientDataSent s') k = isSet (tcpServerClientDataSent s) k
      \<and> isSet (tcpServerClientWriteError s') k = isSet (tcpServerClientWriteError s) k)"

text \<open>
  What the two loops of the running state and the calls of \<open>tcpServerSetState\<close> around
  them leave alone.
\<close>

definition sameService :: "state \<Rightarrow> state \<Rightarrow> bool" where
  "sameService s s' =
     (settings s' = settings s \<and> inMainMenu s' = inMainMenu s
      \<and> tcpServer s' = tcpServer s \<and> tcpServerState s' = tcpServerState s
      \<and> tcpServerTimer s' = tcpServerTimer s
      \<and> tcpServerClientTails s' = tcpServerClientTails s)"

text \<open>The object the accept loop stores for a connection from \<open>ip\<close>.\<close>

definition newClient :: "ip_address \<Rightarrow> client" where
  "newClient ip = \<lparr>remoteIP = ip, stopped = False, writes = []\<rparr>"

text \<open>
  A slot across the accept loop: untouched, or free before and holding a connection that
  was waiting.
\<close>

definition slotAfterAccept :: "ip_address list \<Rightarrow> state \<Rightarrow> state \<Rightarrow> nat \<Rightarrow> bool" where
  "slotAfterAccept pending s s' k =
     ((tcpServerClient s' ! k = tcpServerClient s ! k
       \<and> isSet (tcpServerClientConnected s') k = isSet (tcpServerClientConnected s) k)
      \<or> (\<not> isSet (tcpServerClientConnected s) k \<and> isSet (tcpServerClientConnected s') k
          \<and> (\<exists>ip \<in> set pending. tcpServerClient s' ! k = Some (newClient ip))))"

text \<open>Every slot of the table has held a client: no pointer of the array is null.\<close>

definition allAllocated :: "state \<Rightarrow> bool" where
  "allAllocated s =
     (\<forall>index \<in> set [0 ..< TCP_SERVER_MAX_CLIENTS]. tcpServerClient s ! index \<noteq> None)"

text \<open>
  A slot across calls of \<open>tcpServerStopClient\<close> for other slots: it does not become
  connected, and a stopped socket stays stopped.
\<close>

definition staysClosed :: "state \<Rightarrow> state \<Rightarrow> nat \<Rightarrow> bool" where
  "staysClosed s s' k =
     ((isSet (tcpServerClientConnected s') k \<longrightarrow> isSet (tcpServerClientConnected s) k)
      \<and> ((\<exists>c. tcpServerClient s ! k = Some c \<and> stopped c)
           \<longrightarrow> (\<exists>c. tcpServerClient s' ! k = Some c \<and> stopped c)))"

subsection \<open>Concrete states\<close>

text \<open>
  The globals after boot with the TCP server enabled and a ring buffer of 1000 bytes:
  the statics are zero, the pointers null, \<^verbatim>\<open>tcpServerZeroTail\<close> has run.
\<close>

definition bootState :: state where
  "bootState =
     \<lparr>settings = \<lparr>debugTcpServer = False, enableTcpServer = True,
                  gnssHandlerBufferSize = 1000, tcpServerPort = 2948\<rparr>,
      inMainMenu = False, dmwEnabled = False,
      pdTcpServerState = False, pdTcpServerData = False, pdTcpServerClientData = False,
      onlineTcpServer = False, networkUser = False, tcpServer = None,
      tcpServerState = TCP_SERVER_STATE_OFF, tcpServerTimer = 0,
      tcpServerClientConnected = 0, tcpServerClientDataSent = 0, tcpServerClientWriteError = 0,
      tcpServerClient = [None, None, None, None],
      tcpServerClientIpAddress = [0, 0, 0, 0],
      tcpServerClientTails = [0, 0, 0, 0]\<rparr>"

text \<open>Surroundings in which nothing happens, at time 0.\<close>

definition calmEnv :: env where
  "calmEnv =
     \<lparr>millis = 0, rtkModeMatches = True, wifiIsConnected = False, networkUserOpen = True,
      networkIsShuttingDown = False, networkUserConnected = True, serverAllocated = True,
      clientConnected = (\<lambda>index. True), incoming = []\<rparr>"

text \<open>The server running, first with no client, then with clients in slots 0 and 1.\<close>

definition runningState :: state where
  "runningState =
     bootState\<lparr>onlineTcpServer := True, networkUser := True, tcpServer := Some 2948,
                tcpServerState := TCP_SERVER_STATE_RUNNING\<rparr>"

definition twoClients :: state where
  "twoClients =
     runningState\<lparr>tcpServerClientConnected := 3, tcpServerClientDataSent := 3,
                   tcpServerClient := [Some \<lparr>remoteIP = 1, stopped = False, writes = []\<rparr>,
                                       Some \<lparr>remoteIP = 2, stopped = False, writes = []\<rparr>,
                                       None, None],
                   tcpServerClientIpAddress := [1, 2, 0, 0]\<rparr>"

text \<open>Two clients, the first with its tail 10 bytes before the end of the buffer.\<close>

definition wrapState :: state where
  "wrapState = twoClients\<lparr>tcpServerClientTails := [990, 5, 0, 0]\<rparr>"

text \<open>
  Two clients, the first up to date with a head of 50, the second lagging at 5; and the
  table after a pass with head 50 in which the write to the second fails.
\<close>

definition staleWriter :: state where
  "staleWriter = twoClients\<lparr>tcpServerClientTails := [50, 5, 0, 0]\<rparr>"

definition staleWriterDropped :: state where
  "staleWriterDropped =
     staleWriter\<lparr>tcpServerClient :=
                    [Some \<lparr>remoteIP = 1, stopped = False, writes = []\<rparr>,
                     Some \<lparr>remoteIP = 2, stopped = True, writes = [(5, 45)]\<rparr>, None, None],
                  tcpServerClientConnected := 1, tcpServerClientWriteError := 2,
                  tcpServerClientTails := [50, 5, 50, 50]\<rparr>"

text \<open>One client, accepted into slot 0 from address 9.\<close>

definition oneClient :: state where
  "oneClient =
     runningState\<lparr>tcpServerClientConnected := 1, tcpServerClientDataSent := 1,
                   tcpServerClient := [Some (newClient 9), None, None, None],
                   tcpServerClientIpAddress := [9, 0, 0, 0]\<rparr>"

text \<open>
  A history in which a freed slot is taken again before the next send pass. The client
  of slot 0 lags at tail 5; its write fails in the pass with head 50; a waiting
  connection from address 7 is then accepted into the slot.
\<close>

definition laggingClient :: state where
  "laggingClient = oneClient\<lparr>tcpServerClientTails := [5, 5, 5, 5]\<rparr>"

definition afterFailedWrite :: state where
  "afterFailedWrite =
     laggingClient\<lparr>tcpServerClient :=
                      [Some \<lparr>remoteIP = 9, stopped = True, writes = [(5, 45)]\<rparr>, None, None, None],
                    tcpServerClientConnected := 0, tcpServerClientWriteError := 1,
                    tcpServerClientTails := [5, 50, 50, 50]\<rparr>"


section \<open>Properties of discardTcpServerBytes\<close>

lemma discardSlot_tails:
  "discardSlot p n i s =
   s\<lparr>tcpServerClientTails := (tcpServerClientTails s)[i := moved p n (tcpServerClientTails s ! i)]\<rparr>"
  by (simp add: discardSlot_def moved_def Let_def)

lemma discard_prefix:
  "m \<le> length (tcpServerClientTails s) \<Longrightarrow>
   fold (discardSlot p n) [0 ..< m] s =
   s\<lparr>tcpServerClientTails :=
       map (moved p n) (take m (tcpServerClientTails s)) @ drop m (tcpServerClientTails s)\<rparr>"
proof (induction m)
  case 0
  then show ?case by simp
next
  case (Suc m)
  then show ?case
    apply (simp add: discardSlot_tails take_Suc_conv_app_nth nth_append)
    apply (simp add: list_update_append upd_conv_take_nth_drop Cons_nth_drop_Suc)
    done
qed

lemma discard_all:
  "length (tcpServerClientTails s) = TCP_SERVER_MAX_CLIENTS \<Longrightarrow>
   discardTcpServerBytes p n s =
   s\<lparr>tcpServerClientTails := map (moved p n) (tcpServerClientTails s)\<rparr>"
  by (simp add: discardTcpServerBytes_def discard_prefix)

lemma mod_near:
  fixes x :: int
  assumes "- C < x" "x < C"
  shows "x mod C = (if 0 \<le> x then x else x + C)"
proof (cases "0 \<le> x")
  case True
  with assms show ?thesis by simp
next
  case False
  have "x mod C = (x + C) mod C" by simp
  also have "\<dots> = x + C" using False assms by (intro mod_pos_pos_trivial) auto
  finally show ?thesis using False by simp
qed

lemma circular_cases:
  fixes a b t C :: int
  assumes "0 \<le> a" "a < C" "0 \<le> b" "b < C" "0 \<le> t" "t < C" "a \<noteq> b"
  shows "inCircularRange C a b t = (if a < b then a \<le> t \<and> t < b else a \<le> t \<or> t < b)"
proof -
  have ta: "(t - a) mod C = (if 0 \<le> t - a then t - a else t - a + C)"
    using assms by (intro mod_near) linarith+
  have ba: "(b - a) mod C = (if 0 \<le> b - a then b - a else b - a + C)"
    using assms by (intro mod_near) linarith+
  show ?thesis
    unfolding inCircularRange_def ta ba using assms by auto
qed

lemma moved_circular:
  assumes "p \<noteq> n" "uint p < C" "uint n < C" "uint t < C"
  shows "moved p n t = (if inCircularRange C (uint p) (uint n) (uint t) then n else t)"
proof -
  have ne: "uint p \<noteq> uint n" using assms(1) by (simp add: word_uint_eq_iff)
  have "inCircularRange C (uint p) (uint n) (uint t) =
        (if uint p < uint n then uint p \<le> uint t \<and> uint t < uint n
         else uint p \<le> uint t \<or> uint t < uint n)"
    using assms(2-4) ne by (intro circular_cases) simp_all
  then show ?thesis
    by (simp add: moved_def word_less_def word_le_def)
qed

text \<open>
  Claim C1. Let the discard notification \<open>(previousTail, newTail)\<close> have two distinct
  offsets below the buffer size \<open>C\<close>, and let every tail of the table be below \<open>C\<close>.
  After \<open>discardTcpServerBytes\<close>, a slot whose tail was in the circular range
  \<open>[previousTail, newTail)\<close> has the tail \<open>newTail\<close>, and a slot whose tail was outside
  the range has the tail it had.
\<close>

theorem discard_moves_range:
  assumes "length (tcpServerClientTails s) = TCP_SERVER_MAX_CLIENTS"
    and "index < TCP_SERVER_MAX_CLIENTS"
    and "previousTail \<noteq> newTail"
    and "uint previousTail < C" and "uint newTail < C"
    and "\<forall>t \<in> set (tcpServerClientTails s). uint t < C"
  shows "tcpServerClientTails (discardTcpServerBytes previousTail newTail s) ! index =
         (if inCircularRange C (uint previousTail) (uint newTail)
               (uint (tcpServerClientTails s ! index))
          then newTail else tcpServerClientTails s ! index)"
  using assms by (simp add: discard_all moved_circular)

text \<open>
  The producer discards \<open>[100, 150)\<close> of a buffer of 1000 bytes: the tail 120 becomes
  150, the tails 90 and 150 stay.
\<close>

theorem discard_moves_range_witness:
  "tcpServerClientTails
     (discardTcpServerBytes 100 150 (bootState\<lparr>tcpServerClientTails := [120, 90, 150, 0]\<rparr>))
   ! 0 = 150
   \<and> tcpServerClientTails
     (discardTcpServerBytes 100 150 (bootState\<lparr>tcpServerClientTails := [120, 90, 150, 0]\<rparr>))
   ! 1 = 90
   \<and> tcpServerClientTails
     (discardTcpServerBytes 100 150 (bootState\<lparr>tcpServerClientTails := [120, 90, 150, 0]\<rparr>))
   ! 2 = 150"
  using discard_moves_range
          [of "bootState\<lparr>tcpServerClientTails := [120, 90, 150, 0]\<rparr>" 0 100 150 1000]
        discard_moves_range
          [of "bootState\<lparr>tcpServerClientTails := [120, 90, 150, 0]\<rparr>" 1 100 150 1000]
        discard_moves_range
          [of "bootState\<lparr>tcpServerClientTails := [120, 90, 150, 0]\<rparr>" 2 100 150 1000]
  by (simp add: TCP_SERVER_MAX_CLIENTS_def inCircularRange_def)

text \<open>
  Claim C10. When the discarded range is empty (\<open>previousTail = newTail\<close>), the
  wrap-around branch is taken and its condition holds for every tail, so every slot of the
  table, connected or not, ends with the tail \<open>newTail\<close>.
\<close>

theorem discard_empty_range:
  assumes "length (tcpServerClientTails s) = TCP_SERVER_MAX_CLIENTS"
  shows "tcpServerClientTails (discardTcpServerBytes newTail newTail s) =
         replicate TCP_SERVER_MAX_CLIENTS newTail"
proof -
  have "moved newTail newTail = (\<lambda>t. newTail)"
    by (auto simp: moved_def fun_eq_iff)
  with assms show ?thesis
    by (simp add: discard_all map_replicate_const)
qed

theorem discard_empty_range_witness:
  "tcpServerClientTails
     (discardTcpServerBytes 7 7 (bootState\<lparr>tcpServerClientTails := [120, 90, 7, 0]\<rparr>))
   = [7, 7, 7, 7]"
  using discard_empty_range [of "bootState\<lparr>tcpServerClientTails := [120, 90, 7, 0]\<rparr>" 7]
  by (simp add: TCP_SERVER_MAX_CLIENTS_def numeral_eq_Suc)

section \<open>Flags and guarded statements\<close>

lemmas state_names = TCP_SERVER_STATE_OFF_def TCP_SERVER_STATE_NETWORK_STARTED_def
  TCP_SERVER_STATE_RUNNING_def TCP_SERVER_STATE_MAX_def

lemma whenDo_clearPdState:
  "whenDo b clearPdState s = s\<lparr>pdTcpServerState := pdTcpServerState s \<and> \<not> b\<rparr>"
  by (cases b) (simp_all add: whenDo_def clearPdState_def)

lemma whenDo_clearPdData:
  "whenDo b clearPdData s = s\<lparr>pdTcpServerData := pdTcpServerData s \<and> \<not> b\<rparr>"
  by (cases b) (simp_all add: whenDo_def clearPdData_def)

lemma whenDo_clearPdClientData:
  "whenDo b clearPdClientData s = s\<lparr>pdTcpServerClientData := pdTcpServerClientData s \<and> \<not> b\<rparr>"
  by (cases b) (simp_all add: whenDo_def clearPdClientData_def)

lemma whenDo_offline:
  "whenDo (onlineTcpServer s) (\<lambda>s. s\<lparr>onlineTcpServer := False\<rparr>) s = s\<lparr>onlineTcpServer := False\<rparr>"
  by (cases "onlineTcpServer s") (simp_all add: whenDo_def)

lemma whenDo_delete:
  "whenDo (tcpServer s \<noteq> None) (\<lambda>s. s\<lparr>tcpServer := None\<rparr>) s = s\<lparr>tcpServer := None\<rparr>"
  by (cases "tcpServer s") (simp_all add: whenDo_def)

lemmas whenDo_simps = whenDo_clearPdState whenDo_clearPdData whenDo_clearPdClientData
  whenDo_offline whenDo_delete

lemma isSet_bit: "isSet w i = bit w i"
  by (simp add: isSet_def slotMask_def and_exp_eq_0_iff_not_bit)

lemma isSet_or: "isSet (w OR slotMask i) j = (isSet w j \<or> (j = i \<and> i < 8))"
  by (auto simp: isSet_bit slotMask_def bit_simps)

lemma isSet_and_not: "isSet (w AND NOT (slotMask i)) j = (isSet w j \<and> j \<noteq> i)"
  by (auto simp: isSet_bit slotMask_def bit_simps dest: bit_imp_le_length)

lemma isSet_zero: "\<not> isSet 0 j"
  by (simp add: isSet_bit)

lemma clear_clear: "w AND NOT (slotMask i) AND NOT (slotMask i) = w AND NOT (slotMask i)"
  by (simp add: and.assoc)

lemma clear_unset: "\<not> isSet w i \<Longrightarrow> w AND NOT (slotMask i) = w"
  by (rule bit_eqI) (auto simp: isSet_bit slotMask_def bit_simps)

lemma eq_zero_isSet: "(w = 0) = (\<forall>j < 8. \<not> isSet w j)"
  by (auto simp: isSet_bit bit_eq_iff dest: bit_imp_le_length)

section \<open>Properties of tcpServerSetState\<close>

lemma unknown_state_cases:
  "TCP_SERVER_STATE_MAX \<le> v \<Longrightarrow>
   v \<noteq> TCP_SERVER_STATE_OFF \<and> v \<noteq> TCP_SERVER_STATE_NETWORK_STARTED \<and> v \<noteq> TCP_SERVER_STATE_RUNNING"
  by (auto simp: TCP_SERVER_STATE_MAX_def TCP_SERVER_STATE_OFF_def
      TCP_SERVER_STATE_NETWORK_STARTED_def TCP_SERVER_STATE_RUNNING_def word_le_nat_alt)

lemma known_state_cases:
  "(v < TCP_SERVER_STATE_MAX) =
   (v = TCP_SERVER_STATE_OFF \<or> v = TCP_SERVER_STATE_NETWORK_STARTED \<or> v = TCP_SERVER_STATE_RUNNING)"
  unfolding TCP_SERVER_STATE_MAX_def TCP_SERVER_STATE_OFF_def
      TCP_SERVER_STATE_NETWORK_STARTED_def TCP_SERVER_STATE_RUNNING_def
      word_less_nat_alt word_unat_eq_iff
  by simp arith

lemma switch_default:
  "TCP_SERVER_STATE_MAX \<le> tcpServerState s \<Longrightarrow> tcpServerSwitch e s = Inr s"
  using unknown_state_cases [of "tcpServerState s"] by (simp add: tcpServerSwitch_def)

lemma setState_halts_iff:
  "(tcpServerSetState newState s = Inl (Halted ''Unknown TCP Server state''))
     = (newState \<ge> TCP_SERVER_STATE_MAX
        \<and> (debugTcpServer (settings s) \<or> pdTcpServerState s) \<and> \<not> inMainMenu s)"
  by (simp add: tcpServerSetState_def debugOr_def reportFatalError_def Let_def clearPdState_def)

lemma setState_quiet:
  "\<not> ((debugTcpServer (settings s) \<or> pdTcpServerState s) \<and> \<not> inMainMenu s) \<Longrightarrow>
   tcpServerSetState newState s = Inr (s\<lparr>tcpServerState := newState\<rparr>)"
  by (auto simp: tcpServerSetState_def debugOr_def Let_def)

text \<open>
  Claim C6, as amended. A state value outside the three enumerated ones halts with the
  diagnostic exactly when \<open>tcpServerSetState\<close> is called with it while the state display
  is on (\<^verbatim>\<open>debugTcpServer\<close> or the periodic display of the state) and the main menu is
  closed. Otherwise \<open>tcpServerSetState\<close> stores the value and returns, and the
  \<^verbatim>\<open>switch\<close> of \<open>tcpServerUpdate\<close> takes its \<^verbatim>\<open>default\<close> branch and changes nothing.
\<close>

theorem setState_fatal_only_when_displayed:
  "(tcpServerSetState newState s = Inl (Halted ''Unknown TCP Server state''))
     = (newState \<ge> TCP_SERVER_STATE_MAX
        \<and> (debugTcpServer (settings s) \<or> pdTcpServerState s) \<and> \<not> inMainMenu s)
   \<and> (\<not> ((debugTcpServer (settings s) \<or> pdTcpServerState s) \<and> \<not> inMainMenu s)
        \<longrightarrow> tcpServerSetState newState s = Inr (s\<lparr>tcpServerState := newState\<rparr>))
   \<and> (tcpServerState s \<ge> TCP_SERVER_STATE_MAX \<longrightarrow> tcpServerSwitch e s = Inr s)"
  using setState_halts_iff [of newState s] setState_quiet [of s newState] switch_default [of s e]
  by blast

text \<open>
  Claim C6 as stated fails: with the display off, the value 7 is stored without a halt,
  and \<open>tcpServerUpdate\<close> in state 7 returns with nothing changed.
\<close>

theorem unknown_state_silent_counterexample:
  "tcpServerSetState 7 bootState = Inr (bootState\<lparr>tcpServerState := 7\<rparr>)
   \<and> tcpServerUpdate calmEnv (bootState\<lparr>tcpServerState := 7\<rparr>)
       = Inr (bootState\<lparr>tcpServerState := 7\<rparr>)"
  by (simp add: tcpServerSetState_def tcpServerUpdate_def tcpServerSwitch_def andThen_def
      debugOr_def bootState_def calmEnv_def state_names)

theorem setState_fatal_only_when_displayed_witness:
  "tcpServerSetState 7 (bootState\<lparr>pdTcpServerState := True\<rparr>)
     = Inl (Halted ''Unknown TCP Server state'')
   \<and> tcpServerSetState 7 bootState = Inr (bootState\<lparr>tcpServerState := 7\<rparr>)
   \<and> tcpServerSwitch calmEnv (bootState\<lparr>tcpServerState := 7\<rparr>)
       = Inr (bootState\<lparr>tcpServerState := 7\<rparr>)"
  using setState_fatal_only_when_displayed [of 7 "bootState\<lparr>pdTcpServerState := True\<rparr>" calmEnv]
    setState_fatal_only_when_displayed [of 7 bootState calmEnv]
    setState_fatal_only_when_displayed [of 0 "bootState\<lparr>tcpServerState := 7\<rparr>" calmEnv]
  by (simp add: bootState_def state_names)

section \<open>Properties of tcpServerStopClient\<close>

lemma stopClient_Some:
  "tcpServerClient s ! index = Some c \<Longrightarrow>
   tcpServerStopClient index s =
   Inr (s\<lparr>pdTcpServerData := pdTcpServerData s \<and> \<not> debugOr s (pdTcpServerData s),
          tcpServerClient := (tcpServerClient s)[index := Some (c\<lparr>stopped := True\<rparr>)],
          tcpServerClientConnected := tcpServerClientConnected s AND NOT (slotMask index),
          tcpServerClientWriteError := tcpServerClientWriteError s AND NOT (slotMask index)\<rparr>)"
  by (simp add: tcpServerStopClient_def Let_def whenDo_simps)

lemma stopClient_None:
  "tcpServerClient s ! index = None \<Longrightarrow> tcpServerStopClient index s = Inl NullPointer"
  by (simp add: tcpServerStopClient_def)

lemma stopClient_again:
  assumes "tcpServerStopClient index s = Inr s1"
  shows "tcpServerStopClient index s1 = Inr s1"
proof (cases "tcpServerClient s ! index")
  case None
  with assms show ?thesis by (simp add: stopClient_None)
next
  case (Some c)
  from assms have s1: "s1 = s\<lparr>pdTcpServerData := pdTcpServerData s \<and> \<not> debugOr s (pdTcpServerData s),
          tcpServerClient := (tcpServerClient s)[index := Some (c\<lparr>stopped := True\<rparr>)],
          tcpServerClientConnected := tcpServerClientConnected s AND NOT (slotMask index),
          tcpServerClientWriteError := tcpServerClientWriteError s AND NOT (slotMask index)\<rparr>"
    by (simp add: stopClient_Some [OF Some])
  have "\<exists>c'. tcpServerClient s1 ! index = Some c' \<and> c'\<lparr>stopped := True\<rparr> = c\<lparr>stopped := True\<rparr>"
    using Some by (cases "index < length (tcpServerClient s)") (simp_all add: s1 list_update_beyond)
  then obtain c' where c': "tcpServerClient s1 ! index = Some c'" "c'\<lparr>stopped := True\<rparr> = c\<lparr>stopped := True\<rparr>"
    by blast
  show ?thesis
    unfolding stopClient_Some [OF c'(1)] c'(2)
    by (cases "debugTcpServer (settings s)"; cases "pdTcpServerData s"; cases "inMainMenu s")
      (simp_all add: s1 debugOr_def and.assoc)
qed

lemma stopped_again: "stopped c \<Longrightarrow> c\<lparr>stopped := True\<rparr> = c"
  by (cases c) simp

text \<open>
  Claim C8, as amended. For a slot that holds a client object, calling
  \<open>tcpServerStopClient\<close> twice in succession gives the state that one call gives: the
  slot not connected, its write-error bit clear, its socket stopped. On a slot that is
  already free and whose socket is stopped, the call changes nothing but the write-error
  bit of the slot, which it clears (a failed write leaves the bit set when it frees the
  slot), and the request for the periodic display, which it clears when the display is on.
\<close>

theorem stopClient_twice:
  assumes "index < TCP_SERVER_MAX_CLIENTS"
    and "length (tcpServerClient s) = TCP_SERVER_MAX_CLIENTS"
    and "tcpServerClient s ! index = Some c"
  shows "\<exists>s1. tcpServerStopClient index s = Inr s1
      \<and> tcpServerStopClient index s1 = Inr s1
      \<and> \<not> isSet (tcpServerClientConnected s1) index
      \<and> \<not> isSet (tcpServerClientWriteError s1) index
      \<and> tcpServerClient s1 ! index = Some (c\<lparr>stopped := True\<rparr>)
      \<and> (\<not> isSet (tcpServerClientConnected s) index \<and> stopped c \<longrightarrow>
            s1 = s\<lparr>pdTcpServerData := pdTcpServerData s \<and> \<not> debugOr s (pdTcpServerData s),
                   tcpServerClientWriteError :=
                     tcpServerClientWriteError s AND NOT (slotMask index)\<rparr>)"
proof -
  define s1 where "s1 = s\<lparr>pdTcpServerData := pdTcpServerData s \<and> \<not> debugOr s (pdTcpServerData s),
          tcpServerClient := (tcpServerClient s)[index := Some (c\<lparr>stopped := True\<rparr>)],
          tcpServerClientConnected := tcpServerClientConnected s AND NOT (slotMask index),
          tcpServerClientWriteError := tcpServerClientWriteError s AND NOT (slotMask index)\<rparr>"
  have once: "tcpServerStopClient index s = Inr s1"
    by (simp add: stopClient_Some [OF assms(3)] s1_def)
  then have twice: "tcpServerStopClient index s1 = Inr s1"
    by (rule stopClient_again)
  have len: "index < length (tcpServerClient s)" using assms(1,2) by simp
  have bits: "\<not> isSet (tcpServerClientConnected s1) index"
    "\<not> isSet (tcpServerClientWriteError s1) index"
    "tcpServerClient s1 ! index = Some (c\<lparr>stopped := True\<rparr>)"
    using len by (simp_all add: s1_def isSet_and_not)
  have same: "s1 = s\<lparr>pdTcpServerData := pdTcpServerData s \<and> \<not> debugOr s (pdTcpServerData s),
                   tcpServerClientWriteError :=
                     tcpServerClientWriteError s AND NOT (slotMask index)\<rparr>"
    if free: "\<not> isSet (tcpServerClientConnected s) index" and st: "stopped c"
  proof -
    have "(tcpServerClient s)[index := Some (c\<lparr>stopped := True\<rparr>)] = tcpServerClient s"
      using assms(3) by (simp add: stopped_again [OF st] list_update_same_conv len)
    then show ?thesis
      by (simp add: s1_def clear_unset [OF free])
  qed
  from once twice bits same show ?thesis by blast
qed

text \<open>
  Claim C8 as stated fails for an already free slot: slot 0 of the table that the failed
  write leaves is not connected and has its write-error bit set, and the call clears the
  bit.
\<close>

theorem stopClient_clears_write_error_counterexample:
  "\<not> isSet (tcpServerClientConnected afterFailedWrite) 0
   \<and> tcpServerClientWriteError afterFailedWrite = 1
   \<and> tcpServerStopClient 0 afterFailedWrite
       = Inr (afterFailedWrite\<lparr>tcpServerClientWriteError := 0\<rparr>)
   \<and> tcpServerClientWriteError (afterFailedWrite\<lparr>tcpServerClientWriteError := 0\<rparr>) = 0"
  by (simp add: tcpServerStopClient_def afterFailedWrite_def laggingClient_def oneClient_def
      runningState_def bootState_def whenDo_simps debugOr_def slotMask_def isSet_def)

theorem stopClient_twice_witness:
  "tcpServerStopClient 1 twoClients =
     Inr (twoClients\<lparr>tcpServerClientConnected := 1,
            tcpServerClient := [Some \<lparr>remoteIP = 1, stopped = False, writes = []\<rparr>,
                                Some \<lparr>remoteIP = 2, stopped = True, writes = []\<rparr>, None, None]\<rparr>)
   \<and> tcpServerStopClient 1
       (twoClients\<lparr>tcpServerClientConnected := 1,
            tcpServerClient := [Some \<lparr>remoteIP = 1, stopped = False, writes = []\<rparr>,
                                Some \<lparr>remoteIP = 2, stopped = True, writes = []\<rparr>, None, None]\<rparr>) =
     Inr (twoClients\<lparr>tcpServerClientConnected := 1,
            tcpServerClient := [Some \<lparr>remoteIP = 1, stopped = False, writes = []\<rparr>,
                                Some \<lparr>remoteIP = 2, stopped = True, writes = []\<rparr>, None, None]\<rparr>)
   \<and> tcpServerStopClient 0 afterFailedWrite
       = Inr (afterFailedWrite\<lparr>tcpServerClientWriteError := 0\<rparr>)"
proof -
  have first: "tcpServerStopClient 1 twoClients =
     Inr (twoClients\<lparr>tcpServerClientConnected := 1,
            tcpServerClient := [Some \<lparr>remoteIP = 1, stopped = False, writes = []\<rparr>,
                                Some \<lparr>remoteIP = 2, stopped = True, writes = []\<rparr>, None, None]\<rparr>)"
    by (simp add: tcpServerStopClient_def twoClients_def runningState_def bootState_def
        whenDo_simps debugOr_def slotMask_def)
  from stopClient_twice [of 1 twoClients "\<lparr>remoteIP = 2, stopped = False, writes = []\<rparr>"]
  have second: "\<exists>s1. tcpServerStopClient 1 twoClients = Inr s1 \<and> tcpServerStopClient 1 s1 = Inr s1"
    by (simp add: twoClients_def TCP_SERVER_MAX_CLIENTS_def) blast
  from stopClient_twice [of 0 afterFailedWrite "\<lparr>remoteIP = 9, stopped = True, writes = [(5, 45)]\<rparr>"]
  have third: "tcpServerStopClient 0 afterFailedWrite
       = Inr (afterFailedWrite\<lparr>tcpServerClientWriteError := 0\<rparr>)"
    by (simp add: afterFailedWrite_def laggingClient_def oneClient_def runningState_def bootState_def
        TCP_SERVER_MAX_CLIENTS_def isSet_def slotMask_def debugOr_def) 
  from first second third show ?thesis by auto
qed

section \<open>Properties of tcpServerClientSendData\<close>

lemma sendData_Some:
  assumes "tcpServerClient s ! index = Some c"
  shows "tcpServerClientSendData sockWrite index offset len s =
     (let len1 = (ucast (sockWrite index len) :: 16 word) in
      Inr (uint len1,
        s\<lparr>pdTcpServerClientData := pdTcpServerClientData s \<and> \<not> debugOr s (pdTcpServerClientData s),
          tcpServerClient := (tcpServerClient s)
            [index := Some (c\<lparr>writes := writes c @ [(offset, len)], stopped := stopped c \<or> len1 = 0\<rparr>)],
          tcpServerClientConnected :=
            (if len1 = 0 then tcpServerClientConnected s AND NOT (slotMask index)
             else tcpServerClientConnected s),
          tcpServerClientDataSent :=
            (if len1 = 0 then tcpServerClientDataSent s
             else tcpServerClientDataSent s OR slotMask index),
          tcpServerClientWriteError :=
            (if len1 = 0 then tcpServerClientWriteError s OR slotMask index
             else tcpServerClientWriteError s)\<rparr>))"
proof (cases "ucast (sockWrite index len) = (0 :: 16 word)")
  case True
  then show ?thesis
    using assms
    by (simp add: tcpServerClientSendData_def Let_def whenDo_simps debugOr_def)
next
  case False
  then have "0 < (ucast (sockWrite index len) :: 16 word)" by (simp add: word_greater_zero_iff)
  then show ?thesis
    using assms False
    by (simp add: tcpServerClientSendData_def Let_def whenDo_simps debugOr_def)
qed


text \<open>
  Claim C5. When the write to a slot fails (the stored result is 0), the call returns 0
  with the slot's write-error bit set, its connected bit clear and its socket stopped, so
  the slot is free from that moment on. The tails, the addresses, the data-sent bits, and
  the client, connected bit and write-error bit of every other slot are as before.
\<close>

theorem write_failure_drops_slot:
  assumes "index < TCP_SERVER_MAX_CLIENTS"
    and "length (tcpServerClient s) = TCP_SERVER_MAX_CLIENTS"
    and "tcpServerClient s ! index = Some c"
    and "ucast (sockWrite index len) = (0 :: 16 word)"
  shows "\<exists>s'. tcpServerClientSendData sockWrite index offset len s = Inr (0, s')
           \<and> isSet (tcpServerClientWriteError s') index
           \<and> \<not> isSet (tcpServerClientConnected s') index
           \<and> (\<exists>c'. tcpServerClient s' ! index = Some c' \<and> stopped c')
           \<and> tcpServerClientTails s' = tcpServerClientTails s
           \<and> tcpServerClientIpAddress s' = tcpServerClientIpAddress s
           \<and> tcpServerClientDataSent s' = tcpServerClientDataSent s
           \<and> (\<forall>j. j \<noteq> index \<longrightarrow>
                  tcpServerClient s' ! j = tcpServerClient s ! j
                  \<and> isSet (tcpServerClientConnected s') j = isSet (tcpServerClientConnected s) j
                  \<and> isSet (tcpServerClientWriteError s') j = isSet (tcpServerClientWriteError s) j)"
  using assms
  by (simp add: sendData_Some isSet_or isSet_and_not TCP_SERVER_MAX_CLIENTS_def)

theorem write_failure_drops_slot_witness:
  "\<exists>s'. tcpServerClientSendData (\<lambda>index len. if index = 1 then 0 else ucast len) 1 0 10 twoClients
          = Inr (0, s')
        \<and> isSet (tcpServerClientWriteError s') 1
        \<and> \<not> isSet (tcpServerClientConnected s') 1
        \<and> isSet (tcpServerClientConnected s') 0
        \<and> tcpServerClient s' ! 0 = Some \<lparr>remoteIP = 1, stopped = False, writes = []\<rparr>
        \<and> tcpServerClientTails s' = [0, 0, 0, 0]"
proof -
  from write_failure_drops_slot
         [of 1 twoClients "\<lparr>remoteIP = 2, stopped = False, writes = []\<rparr>"
             "\<lambda>index len. if index = 1 then 0 else ucast len" 10 0]
  obtain s' where
    "tcpServerClientSendData (\<lambda>index len. if index = 1 then 0 else ucast len) 1 0 10 twoClients
       = Inr (0, s')"
    "isSet (tcpServerClientWriteError s') 1"
    "\<not> isSet (tcpServerClientConnected s') 1"
    "tcpServerClientTails s' = tcpServerClientTails twoClients"
    "\<forall>j. j \<noteq> 1 \<longrightarrow>
        tcpServerClient s' ! j = tcpServerClient twoClients ! j
        \<and> isSet (tcpServerClientConnected s') j = isSet (tcpServerClientConnected twoClients) j
        \<and> isSet (tcpServerClientWriteError s') j = isSet (tcpServerClientWriteError twoClients) j"
    by (auto simp: twoClients_def TCP_SERVER_MAX_CLIENTS_def)
  moreover have "isSet (tcpServerClientConnected twoClients) 0"
    by (simp add: twoClients_def isSet_def slotMask_def)
  ultimately show ?thesis
    by (intro exI [of _ s']) (simp add: twoClients_def runningState_def bootState_def)
qed

section \<open>Properties of tcpServerSendData\<close>

lemma bytesBehind_unread:
  assumes "h < bs" "t < bs"
  shows "bytesBehind bs h t = unread (uint bs) (uint h) (uint t)"
proof -
  have "uint h < uint bs" "uint t < uint bs" using assms by (simp_all add: word_less_def)
  moreover have "0 \<le> uint h" "0 \<le> uint t" by simp_all
  ultimately have "(uint h - uint t) mod uint bs =
      (if 0 \<le> uint h - uint t then uint h - uint t else uint h - uint t + uint bs)"
    by (intro mod_near) linarith+
  then show ?thesis by (simp add: bytesBehind_def unread_def Let_def)
qed

lemma unread_bounds:
  assumes "0 < C"
  shows "0 \<le> unread C h t \<and> unread C h t < C"
  using assms by (simp add: unread_def)

lemma clipToEnd_min:
  "clipToEnd bs t b = min b (uint bs - uint t)"
  by (auto simp: clipToEnd_def min_def)

lemma uint_word_of_int_16:
  "0 \<le> k \<Longrightarrow> k < 65536 \<Longrightarrow> uint (word_of_int k :: 16 word) = k"
  by (simp add: uint_word_of_int take_bit_eq_mod)

lemma advanceTail_mod:
  assumes "t < bs" "0 \<le> n" "n \<le> uint bs - uint t"
  shows "uint (advanceTail bs t n) = (uint t + n) mod uint bs \<and> advanceTail bs t n < bs"
proof -
  define t1 where "t1 = (word_of_int (uint t + n) :: 16 word)"
  have bs: "uint bs < 65536" using uint_lt2p [of bs] by simp
  have t: "uint t < uint bs" "0 \<le> uint t" using assms(1) by (simp_all add: word_less_def)
  have u: "uint t1 = uint t + n"
    unfolding t1_def using assms(2,3) t bs by (intro uint_word_of_int_16) linarith+
  have adv: "advanceTail bs t n = (if t1 \<ge> bs then t1 - bs else t1)"
    by (simp add: advanceTail_def t1_def Let_def)
  have pos: "0 < uint bs" using t by linarith
  show ?thesis
  proof (cases "uint t + n = uint bs")
    case True
    then have "t1 = bs" using u by (simp add: word_uint_eq_iff)
    then show ?thesis using True pos by (simp add: adv word_less_def)
  next
    case False
    then have lt: "uint t + n < uint bs" using assms(3) by linarith
    then have "\<not> bs \<le> t1"
      by (simp add: word_le_def u)
    moreover have "(uint t + n) mod uint bs = uint t + n"
      using lt t assms(2) by (intro mod_pos_pos_trivial) linarith+
    ultimately show ?thesis using lt by (simp add: adv u word_less_def)
  qed
qed

lemma sendSlot_free:
  "\<not> isSet (tcpServerClientConnected s) i \<Longrightarrow>
   sendSlot w h i (u, s) =
   Inr (u, s\<lparr>tcpServerClientTails := (tcpServerClientTails s)[i := h]\<rparr>)"
  by (simp add: sendSlot_def)

lemma sendSlot_idle:
  "isSet (tcpServerClientConnected s) i \<Longrightarrow>
   bytesBehind (gnssHandlerBufferSize (settings s)) h (tcpServerClientTails s ! i) \<le> 0 \<Longrightarrow>
   sendSlot w h i (u, s) = Inr (u, s)"
  by (simp add: sendSlot_def Let_def)


lemma sendSlot_write:
  assumes "isSet (tcpServerClientConnected s) i"
    and "0 < bytesBehind (gnssHandlerBufferSize (settings s)) h (tcpServerClientTails s ! i)"
    and "tcpServerClient s ! i = Some c"
  shows "sendSlot w h i (u, s) =
     (let bs = gnssHandlerBufferSize (settings s);
          t = tcpServerClientTails s ! i;
          len = (word_of_int (clipToEnd bs t (bytesBehind bs h t)) :: 16 word);
          len1 = (ucast (w i len) :: 16 word);
          t1 = advanceTail bs t (uint len1)
      in Inr (max u (bytesBehind bs h t1),
        s\<lparr>pdTcpServerClientData := pdTcpServerClientData s \<and> \<not> debugOr s (pdTcpServerClientData s),
          tcpServerClient := (tcpServerClient s)
            [i := Some (c\<lparr>writes := writes c @ [(t, len)], stopped := stopped c \<or> len1 = 0\<rparr>)],
          tcpServerClientConnected :=
            (if len1 = 0 then tcpServerClientConnected s AND NOT (slotMask i)
             else tcpServerClientConnected s),
          tcpServerClientDataSent :=
            (if len1 = 0 then tcpServerClientDataSent s
             else tcpServerClientDataSent s OR slotMask i),
          tcpServerClientWriteError :=
            (if len1 = 0 then tcpServerClientWriteError s OR slotMask i
             else tcpServerClientWriteError s),
          tcpServerClientTails := (tcpServerClientTails s)[i := t1]\<rparr>))"
  using assms
  by (simp add: sendSlot_def Let_def sendData_Some andThen_def max_def)

lemma tablesOk_client:
  "tablesOk s \<Longrightarrow> j < TCP_SERVER_MAX_CLIENTS \<Longrightarrow> isSet (tcpServerClientConnected s) j \<Longrightarrow>
   \<exists>c. tcpServerClient s ! j = Some c"
  by (auto simp: tablesOk_def)

lemma sendSlot_step:
  assumes ok: "tablesOk s" and j: "j < TCP_SERVER_MAX_CLIENTS"
  shows "\<exists>u' s'. sendSlot w h j (u, s) = Inr (u', s') \<and> tablesOk s' \<and> settings s' = settings s
           \<and> (\<forall>k. k \<noteq> j \<longrightarrow> sameSlot s s' k)"
proof (cases "isSet (tcpServerClientConnected s) j")
  case False
  then show ?thesis using ok
    by (simp add: sendSlot_free tablesOk_def sameSlot_def)
next
  case True
  show ?thesis
  proof (cases "0 < bytesBehind (gnssHandlerBufferSize (settings s)) h (tcpServerClientTails s ! j)")
    case False
    then show ?thesis using True ok
      by (simp add: sendSlot_idle sameSlot_def)
  next
    case pos: True
    from tablesOk_client [OF ok j True] obtain c where c: "tcpServerClient s ! j = Some c" ..
    show ?thesis
      unfolding sendSlot_write [OF True pos c] Let_def using ok j
      by (auto simp: tablesOk_def sameSlot_def isSet_or isSet_and_not nth_list_update)
  qed
qed

lemma unread_after_write:
  assumes "0 \<le> n" "n \<le> unread C h t"
  shows "unread C h ((t + n) mod C) = unread C h t - n"
proof (cases "C = 0")
  case True
  then show ?thesis by (simp add: unread_def)
next
  case False
  have "unread C h ((t + n) mod C) = (h - (t + n)) mod C"
    by (simp add: unread_def mod_diff_right_eq)
  also have "\<dots> = ((h - t) mod C - n) mod C"
    by (simp add: mod_diff_left_eq algebra_simps)
  also have "\<dots> = (h - t) mod C - n"
  proof (cases "0 < C")
    case True
    then have "(h - t) mod C < C" by simp
    with assms show ?thesis by (intro mod_pos_pos_trivial) (simp_all add: unread_def)
  next
    case neg: False
    then have "C < 0" using False by simp
    then have "(h - t) mod C \<le> 0" "C < (h - t) mod C" by simp_all
    with assms have "n = 0" by (simp add: unread_def)
    then show ?thesis by simp
  qed
  finally show ?thesis by (simp add: unread_def)
qed

lemma written_le:
  assumes "unat (x :: 32 word) \<le> unat (len :: 16 word)"
  shows "uint (ucast x :: 16 word) \<le> uint len"
proof -
  have "unat (ucast x :: 16 word) = take_bit 16 (unat x)"
    by (simp add: unsigned_ucast_eq)
  also have "\<dots> \<le> unat x"
    by (rule take_bit_nat_less_eq_self)
  finally have "unat (ucast x :: 16 word) \<le> unat len"
    using assms by (rule order_trans)
  then have "(ucast x :: 16 word) \<le> len"
    by (simp only: word_le_nat_alt)
  then show ?thesis
    by (simp only: word_le_def)
qed

lemma buffer_bounds:
  fixes t bs :: "16 word"
  assumes "t < bs"
  shows "0 < uint bs" "uint bs < 65536" "uint t < uint bs"
proof -
  have a: "0 \<le> uint t" by simp
  have b: "uint t < uint bs" using assms by (simp add: word_less_def)
  have c: "uint bs < 2 ^ 16" using uint_lt2p [of bs] by simp
  from a b show "0 < uint bs" by linarith
  from c show "uint bs < 65536" by simp
  from b show "uint t < uint bs" .
qed

lemma sendSlot_drain:
  assumes ok: "tablesOk s" and i: "i < TCP_SERVER_MAX_CLIENTS"
    and conn: "isSet (tcpServerClientConnected s) i"
    and c: "tcpServerClient s ! i = Some c"
    and bs: "gnssHandlerBufferSize (settings s) = bs"
    and tail: "tcpServerClientTails s ! i = tail"
    and h: "h < bs" and t: "tail < bs"
    and unr: "unr = unread (uint bs) (uint h) (uint tail)"
    and n: "n = min unr (uint bs - uint tail)"
    and wr: "wr = (ucast (w i (word_of_int n)) :: 16 word)"
  shows "\<exists>u' s' c'. sendSlot w h i (u, s) = Inr (u', s') \<and> tcpServerClient s' ! i = Some c'
      \<and> (if unr = 0 then u' = u \<and> s' = s \<and> c' = c
          else u' = max u (bytesBehind bs h (tcpServerClientTails s' ! i))
             \<and> writes c' = writes c @ [(tail, word_of_int n)]
             \<and> uint (word_of_int n :: 16 word) = n
             \<and> stopped c' = (stopped c \<or> wr = 0)
             \<and> isSet (tcpServerClientConnected s') i = (wr \<noteq> 0)
             \<and> isSet (tcpServerClientDataSent s') i = (isSet (tcpServerClientDataSent s) i \<or> wr \<noteq> 0)
             \<and> isSet (tcpServerClientWriteError s') i = (isSet (tcpServerClientWriteError s) i \<or> wr = 0)
             \<and> tcpServerClientTails s' ! i = advanceTail bs tail (uint wr))"
proof -
  have bb: "bytesBehind bs h tail = unr"
    using h t by (simp add: bytesBehind_unread unr)
  have len: "i < length (tcpServerClient s)" "i < length (tcpServerClientTails s)" "i < 8"
    using ok i by (simp_all add: tablesOk_def TCP_SERVER_MAX_CLIENTS_def)
  note C = buffer_bounds [OF t]
  have unr_b: "0 \<le> unr" "unr < uint bs"
    using unread_bounds [OF C(1)] by (simp_all add: unr)
  show ?thesis
  proof (cases "unr = 0")
    case True
    then show ?thesis
      using conn c bb by (simp add: sendSlot_idle bs tail)
  next
    case False
    then have pos: "0 < bytesBehind (gnssHandlerBufferSize (settings s)) h (tcpServerClientTails s ! i)"
      using bb unr_b by (simp add: bs tail)
    have clip: "clipToEnd bs tail unr = n"
      by (simp add: clipToEnd_min n)
    have "0 \<le> n" "n < 65536" using unr_b C by (simp_all add: n min_def)
    then have un: "uint (word_of_int n :: 16 word) = n" by (rule uint_word_of_int_16)
    show ?thesis
      unfolding sendSlot_write [OF conn pos c] Let_def
      using False len un conn
      by (simp add: bs tail bb clip wr [symmetric] isSet_or isSet_and_not)
  qed
qed

lemma andThen_Inr [simp]: "andThen (Inr x) f = f x"
  by (simp add: andThen_def)

lemma andThen_Inl [simp]: "andThen (Inl e) f = Inl e"
  by (simp add: andThen_def)

lemma forEach_append:
  "forEach body (xs @ ys) s = andThen (forEach body xs s) (forEach body ys)"
proof (induction xs arbitrary: s)
  case Nil
  show ?case by simp
next
  case (Cons x xs)
  show ?case
    by (cases "body x s") (simp_all add: Cons.IH)
qed

lemma forEach_invariant:
  assumes step: "\<And>i s. i \<in> set xs \<Longrightarrow> I s \<Longrightarrow> \<exists>s'. body i s = Inr s' \<and> I s' \<and> R s s'"
    and refl: "\<And>s. R s s"
    and trans: "\<And>a b c. R a b \<Longrightarrow> R b c \<Longrightarrow> R a c"
    and init: "I s"
  shows "\<exists>s'. forEach body xs s = Inr s' \<and> I s' \<and> R s s'"
  using step init
proof (induction xs arbitrary: s)
  case Nil
  then show ?case using refl by simp
next
  case (Cons x xs)
  from Cons.prems(1) [of x s] Cons.prems(2)
  obtain s1 where s1: "body x s = Inr s1" "I s1" "R s s1" by auto
  from Cons.IH [of s1] Cons.prems(1) s1(2)
  obtain s' where s': "forEach body xs s1 = Inr s'" "I s'" "R s1 s'" by auto
  from s1 s' trans show ?case by auto
qed

lemma sendPass_frame:
  assumes ok: "tablesOk s" and xs: "\<forall>j \<in> set xs. j < TCP_SERVER_MAX_CLIENTS" and k: "k \<notin> set xs"
  shows "\<exists>u' s'. forEach (sendSlot w h) xs (u, s) = Inr (u', s') \<and> tablesOk s'
           \<and> settings s' = settings s \<and> sameSlot s s' k"
proof -
  have "\<exists>us'. forEach (sendSlot w h) xs (u, s) = Inr us' \<and> tablesOk (snd us')
          \<and> (settings (snd us') = settings (snd (u, s)) \<and> sameSlot (snd (u, s)) (snd us') k)"
  proof (rule forEach_invariant [where I = "\<lambda>us. tablesOk (snd us)"
        and R = "\<lambda>a b. settings (snd b) = settings (snd a) \<and> sameSlot (snd a) (snd b) k"])
    fix j and us :: "int \<times> state"
    assume j: "j \<in> set xs" and inv: "tablesOk (snd us)"
    from j xs k have "j < TCP_SERVER_MAX_CLIENTS" "k \<noteq> j" by auto
    with sendSlot_step [OF inv, of j w h "fst us"]
    show "\<exists>s'. sendSlot w h j us = Inr s' \<and> tablesOk (snd s')
             \<and> settings (snd s') = settings (snd us) \<and> sameSlot (snd us) (snd s') k"
      by auto
  next
    show "tablesOk (snd (u, s))" using ok by simp
  qed (auto simp: sameSlot_def)
  then show ?thesis by auto
qed

lemma indices_split:
  assumes "i < n"
  shows "[0 ..< n] = [0 ..< i] @ [i] @ [Suc i ..< n]"
proof -
  have "[0 ..< n] = [0 ..< i] @ [i ..< n]"
    using assms upt_add_eq_append [of 0 i "n - i"] by simp
  also have "[i ..< n] = i # [Suc i ..< n]"
    using assms by (rule upt_conv_Cons)
  finally show ?thesis by simp
qed

text \<open>
  Claim C4. Take a connected slot of a table that satisfies its invariant, with the head
  and the slot's tail below the buffer size \<open>C\<close>, and let
  \<open>unr = (dataHead - tail) mod C\<close>. One pass of \<open>tcpServerSendData\<close> returns. If
  \<open>unr = 0\<close> the slot's client and tail are as before: nothing was written. Otherwise
  the pass made exactly one write on the slot's client, of \<open>min unr (C - tail)\<close> bytes
  starting at \<open>tail\<close>; and when the write reports \<open>written\<close> bytes, more than 0 and
  at most the bytes asked for, the tail becomes \<open>(tail + written) mod C\<close>, the slot
  stays connected with its data-sent bit set, and \<open>unr - written\<close> bytes remain unread.
\<close>

theorem drain_one_write:
  assumes ok: "tablesOk s" and i: "index < TCP_SERVER_MAX_CLIENTS"
    and conn: "isSet (tcpServerClientConnected s) index"
    and c: "tcpServerClient s ! index = Some c"
    and h: "dataHead < gnssHandlerBufferSize (settings s)"
    and t: "tcpServerClientTails s ! index < gnssHandlerBufferSize (settings s)"
  shows "\<exists>usedSpace s' c'.
      tcpServerSendData sockWrite dataHead s = Inr (usedSpace, s')
      \<and> tcpServerClient s' ! index = Some c'
      \<and> (let C = uint (gnssHandlerBufferSize (settings s));
              tail = tcpServerClientTails s ! index;
              unr = unread C (uint dataHead) (uint tail);
              n = min unr (C - uint tail);
              written = uint (ucast (sockWrite index (word_of_int n)) :: 16 word)
          in if unr = 0 then c' = c \<and> tcpServerClientTails s' ! index = tail
             else writes c' = writes c @ [(tail, word_of_int n)]
                \<and> uint (word_of_int n :: 16 word) = n
                \<and> (0 < written \<and> written \<le> n \<longrightarrow>
                      uint (tcpServerClientTails s' ! index) = (uint tail + written) mod C
                      \<and> unread C (uint dataHead) (uint (tcpServerClientTails s' ! index))
                          = unr - written
                      \<and> isSet (tcpServerClientConnected s') index
                      \<and> isSet (tcpServerClientDataSent s') index))"
proof -
  define bs where "bs = gnssHandlerBufferSize (settings s)"
  define tail where "tail = tcpServerClientTails s ! index"
  define unr where "unr = unread (uint bs) (uint dataHead) (uint tail)"
  define n where "n = min unr (uint bs - uint tail)"
  define wr where "wr = (ucast (sockWrite index (word_of_int n)) :: 16 word)"
  have split: "[0 ..< TCP_SERVER_MAX_CLIENTS] = [0 ..< index] @ [index] @ [Suc index ..< TCP_SERVER_MAX_CLIENTS]"
    using i by (rule indices_split)
  \<comment> \<open>the slots before \<open>index\<close>\<close>
  from sendPass_frame [OF ok, of "[0 ..< index]" index sockWrite dataHead 0] i
  obtain u1 s1 where pre: "forEach (sendSlot sockWrite dataHead) [0 ..< index] (0, s) = Inr (u1, s1)"
    and ok1: "tablesOk s1" and set1: "settings s1 = settings s" and same1: "sameSlot s s1 index"
    by auto
  \<comment> \<open>the slot itself\<close>
  have conn1: "isSet (tcpServerClientConnected s1) index"
    and c1: "tcpServerClient s1 ! index = Some c"
    and t1: "tcpServerClientTails s1 ! index = tail"
    using same1 conn c by (simp_all add: sameSlot_def tail_def)
  have bs1: "gnssHandlerBufferSize (settings s1) = bs" by (simp add: set1 bs_def)
  have tl: "tail < bs" and hl: "dataHead < bs" using t h by (simp_all add: tail_def bs_def)
  from sendSlot_drain [where w = sockWrite and u = u1, OF ok1 i conn1 c1 bs1 t1 hl tl unr_def n_def wr_def]
  obtain u2 s2 c' where step: "sendSlot sockWrite dataHead index (u1, s1) = Inr (u2, s2)"
    and c': "tcpServerClient s2 ! index = Some c'"
    and eff: "if unr = 0 then u2 = u1 \<and> s2 = s1 \<and> c' = c
          else u2 = max u1 (bytesBehind bs dataHead (tcpServerClientTails s2 ! index))
             \<and> writes c' = writes c @ [(tail, word_of_int n)]
             \<and> uint (word_of_int n :: 16 word) = n
             \<and> stopped c' = (stopped c \<or> wr = 0)
             \<and> isSet (tcpServerClientConnected s2) index = (wr \<noteq> 0)
             \<and> isSet (tcpServerClientDataSent s2) index = (isSet (tcpServerClientDataSent s1) index \<or> wr \<noteq> 0)
             \<and> isSet (tcpServerClientWriteError s2) index = (isSet (tcpServerClientWriteError s1) index \<or> wr = 0)
             \<and> tcpServerClientTails s2 ! index = advanceTail bs tail (uint wr)"
    by blast
  from sendSlot_step [OF ok1 i, of sockWrite dataHead u1] step
  have ok2: "tablesOk s2" by auto
  \<comment> \<open>the slots after \<open>index\<close>\<close>
  from sendPass_frame [OF ok2, of "[Suc index ..< TCP_SERVER_MAX_CLIENTS]" index sockWrite dataHead u2]
  obtain u3 s3 where post: "forEach (sendSlot sockWrite dataHead) [Suc index ..< TCP_SERVER_MAX_CLIENTS] (u2, s2) = Inr (u3, s3)"
    and same3: "sameSlot s2 s3 index"
    by auto
  have run: "tcpServerSendData sockWrite dataHead s = Inr (u3, s3)"
    unfolding tcpServerSendData_def
    by (subst split) (simp add: forEach_append pre step post)
  have c3: "tcpServerClient s3 ! index = Some c'"
    and t3: "tcpServerClientTails s3 ! index = tcpServerClientTails s2 ! index"
    and conn3: "isSet (tcpServerClientConnected s3) index = isSet (tcpServerClientConnected s2) index"
    and ds3: "isSet (tcpServerClientDataSent s3) index = isSet (tcpServerClientDataSent s2) index"
    using same3 c' by (simp_all add: sameSlot_def)
  note C = buffer_bounds [OF tl]
  have unr_b: "0 \<le> unr" "unr < uint bs"
    using unread_bounds [OF C(1)] by (simp_all add: unr_def)
  have result: "if unr = 0 then c' = c \<and> tcpServerClientTails s3 ! index = tail
             else writes c' = writes c @ [(tail, word_of_int n)]
                \<and> uint (word_of_int n :: 16 word) = n
                \<and> (0 < uint wr \<and> uint wr \<le> n \<longrightarrow>
                      uint (tcpServerClientTails s3 ! index) = (uint tail + uint wr) mod uint bs
                      \<and> unread (uint bs) (uint dataHead) (uint (tcpServerClientTails s3 ! index))
                          = unr - uint wr
                      \<and> isSet (tcpServerClientConnected s3) index
                      \<and> isSet (tcpServerClientDataSent s3) index)"
  proof (cases "unr = 0")
    case True
    with eff t1 show ?thesis by (simp add: t3)
  next
    case False
    with eff have e: "writes c' = writes c @ [(tail, word_of_int n)]"
      "uint (word_of_int n :: 16 word) = n"
      "isSet (tcpServerClientConnected s2) index = (wr \<noteq> 0)"
      "isSet (tcpServerClientDataSent s2) index = (isSet (tcpServerClientDataSent s1) index \<or> wr \<noteq> 0)"
      "tcpServerClientTails s2 ! index = advanceTail bs tail (uint wr)"
      by simp_all
    {
      assume w: "0 < uint wr" "uint wr \<le> n"
      then have wn: "wr \<noteq> 0" by auto
      have le: "uint wr \<le> uint bs - uint tail" "uint wr \<le> unr" using w(2) by (simp_all add: n_def)
      from advanceTail_mod [OF tl _ le(1)]
      have adv: "uint (advanceTail bs tail (uint wr)) = (uint tail + uint wr) mod uint bs" by simp
      have "unread (uint bs) (uint dataHead) ((uint tail + uint wr) mod uint bs) = unr - uint wr"
        unfolding unr_def using le(2) by (intro unread_after_write) (simp_all add: unr_def)
      then have "uint (tcpServerClientTails s3 ! index) = (uint tail + uint wr) mod uint bs
           \<and> unread (uint bs) (uint dataHead) (uint (tcpServerClientTails s3 ! index)) = unr - uint wr
           \<and> isSet (tcpServerClientConnected s3) index
           \<and> isSet (tcpServerClientDataSent s3) index"
        using wn by (simp add: t3 e(5) adv conn3 ds3 e(3) e(4))
    }
    then have "0 < uint wr \<and> uint wr \<le> n \<longrightarrow>
           uint (tcpServerClientTails s3 ! index) = (uint tail + uint wr) mod uint bs
           \<and> unread (uint bs) (uint dataHead) (uint (tcpServerClientTails s3 ! index)) = unr - uint wr
           \<and> isSet (tcpServerClientConnected s3) index
           \<and> isSet (tcpServerClientDataSent s3) index"
      by blast
    with e(1,2) have "writes c' = writes c @ [(tail, word_of_int n)]
                \<and> uint (word_of_int n :: 16 word) = n
                \<and> (0 < uint wr \<and> uint wr \<le> n \<longrightarrow>
                      uint (tcpServerClientTails s3 ! index) = (uint tail + uint wr) mod uint bs
                      \<and> unread (uint bs) (uint dataHead) (uint (tcpServerClientTails s3 ! index))
                          = unr - uint wr
                      \<and> isSet (tcpServerClientConnected s3) index
                      \<and> isSet (tcpServerClientDataSent s3) index)"
      by blast
    with False show ?thesis by (simp only: if_False) blast
  qed
  show ?thesis
    unfolding Let_def
    using run c3 result [unfolded wr_def n_def unr_def tail_def bs_def]
    by blast
qed

lemma all_slots:
  "(\<forall>index \<in> set [0 ..< TCP_SERVER_MAX_CLIENTS]. P index) = (P 0 \<and> P 1 \<and> P 2 \<and> P 3)"
proof -
  have "[0 ..< TCP_SERVER_MAX_CLIENTS] = [0, 1, 2, 3]"
    by (simp add: TCP_SERVER_MAX_CLIENTS_def upt_rec)
  then show ?thesis by simp
qed

lemma tablesOk_wrapState: "tablesOk wrapState"
  unfolding tablesOk_def all_slots
  by (simp add: wrapState_def twoClients_def runningState_def bootState_def
      TCP_SERVER_MAX_CLIENTS_def isSet_def slotMask_def)

theorem drain_one_write_witness:
  "\<exists>usedSpace s' c'.
      tcpServerSendData (\<lambda>index len. 4) 20 wrapState = Inr (usedSpace, s')
      \<and> tcpServerClient s' ! 0 = Some c'
      \<and> writes c' = [(990, 10)]
      \<and> uint (tcpServerClientTails s' ! 0) = 994
      \<and> unread 1000 20 (uint (tcpServerClientTails s' ! 0)) = 26
      \<and> isSet (tcpServerClientConnected s') 0"
proof -
  have "isSet (tcpServerClientConnected wrapState) 0"
    by (simp add: wrapState_def twoClients_def isSet_def slotMask_def)
  from drain_one_write [OF tablesOk_wrapState _ this, of "\<lparr>remoteIP = 1, stopped = False, writes = []\<rparr>" 20 "\<lambda>index len. 4"]
  show ?thesis
    by (simp add: wrapState_def twoClients_def runningState_def bootState_def
        TCP_SERVER_MAX_CLIENTS_def unread_def) blast
qed

lemma Max_insert_max:
  fixes u v :: int
  assumes "finite A"
  shows "Max (insert (max u v) A) = Max (insert u (insert v A))"
proof (cases "A = {}")
  case True
  then show ?thesis by (simp add: max.commute)
next
  case False
  with assms show ?thesis by (simp add: max.assoc)
qed

lemma sendSlot_max:
  assumes honest: "\<And>len. unat (w x len) \<le> unat len"
    and ok: "tablesOk s" and x: "x < TCP_SERVER_MAX_CLIENTS"
    and bs: "gnssHandlerBufferSize (settings s) = bs" and h: "h < bs"
    and t: "isSet (tcpServerClientConnected s) x \<longrightarrow> tcpServerClientTails s ! x < bs"
    and u: "0 \<le> u"
  shows "\<exists>u1 s1. sendSlot w h x (u, s) = Inr (u1, s1) \<and> tablesOk s1 \<and> settings s1 = settings s
      \<and> (\<forall>k. k \<noteq> x \<longrightarrow> sameSlot s s1 k)
      \<and> u1 = (if isSet (tcpServerClientConnected s) x
               then max u (unread (uint bs) (uint h) (uint (tcpServerClientTails s1 ! x))) else u)
      \<and> 0 \<le> u1"
proof -
  from sendSlot_step [OF ok x, of w h u]
  obtain u1 s1 where step: "sendSlot w h x (u, s) = Inr (u1, s1)" and ok1: "tablesOk s1"
    and set1: "settings s1 = settings s" and frame: "\<forall>k. k \<noteq> x \<longrightarrow> sameSlot s s1 k"
    by blast
  have "u1 = (if isSet (tcpServerClientConnected s) x
               then max u (unread (uint bs) (uint h) (uint (tcpServerClientTails s1 ! x))) else u)"
  proof (cases "isSet (tcpServerClientConnected s) x")
    case False
    with step show ?thesis by (simp add: sendSlot_free)
  next
    case True
    with t have tl: "tcpServerClientTails s ! x < bs" by simp
    from tablesOk_client [OF ok x True] obtain c where c: "tcpServerClient s ! x = Some c" ..
    define unr where "unr = unread (uint bs) (uint h) (uint (tcpServerClientTails s ! x))"
    define n where "n = min unr (uint bs - uint (tcpServerClientTails s ! x))"
    define wr where "wr = (ucast (w x (word_of_int n)) :: 16 word)"
    from sendSlot_drain [where w = w and u = u, OF ok x True c bs refl h tl unr_def n_def wr_def] step
    have eff: "if unr = 0 then u1 = u \<and> s1 = s
          else u1 = max u (bytesBehind bs h (tcpServerClientTails s1 ! x))
             \<and> uint (word_of_int n :: 16 word) = n
             \<and> tcpServerClientTails s1 ! x = advanceTail bs (tcpServerClientTails s ! x) (uint wr)"
      by auto
    show ?thesis
    proof (cases "unr = 0")
      case z: True
      with eff u show ?thesis using True by (simp add: unr_def [symmetric])
    next
      case nz: False
      with eff have e: "u1 = max u (bytesBehind bs h (tcpServerClientTails s1 ! x))"
        "uint (word_of_int n :: 16 word) = n"
        "tcpServerClientTails s1 ! x = advanceTail bs (tcpServerClientTails s ! x) (uint wr)"
        by simp_all
      have "uint wr \<le> uint (word_of_int n :: 16 word)"
        unfolding wr_def by (rule written_le) (rule honest)
      then have "uint wr \<le> n"
        by (simp only: e(2))
      then have "uint wr \<le> uint bs - uint (tcpServerClientTails s ! x)"
        unfolding n_def by simp
      from advanceTail_mod [OF tl _ this]
      have "tcpServerClientTails s1 ! x < bs" by (simp add: e(3))
      then have "bytesBehind bs h (tcpServerClientTails s1 ! x)
                 = unread (uint bs) (uint h) (uint (tcpServerClientTails s1 ! x))"
        using h by (simp add: bytesBehind_unread)
      with e(1) True show ?thesis by simp
    qed
  qed
  moreover from this u have "0 \<le> u1" by (simp split: if_splits)
  ultimately show ?thesis using step ok1 set1 frame by blast
qed

lemma sendPass_max:
  assumes honest: "\<And>index len. unat (w index len) \<le> unat len"
  shows "distinct xs \<Longrightarrow> \<forall>j \<in> set xs. j < TCP_SERVER_MAX_CLIENTS \<Longrightarrow> tablesOk s \<Longrightarrow>
     gnssHandlerBufferSize (settings s) = bs \<Longrightarrow> h < bs \<Longrightarrow>
     \<forall>j \<in> set xs. isSet (tcpServerClientConnected s) j \<longrightarrow> tcpServerClientTails s ! j < bs \<Longrightarrow>
     0 \<le> u \<Longrightarrow>
     \<exists>u' s'. forEach (sendSlot w h) xs (u, s) = Inr (u', s')
       \<and> u' = Max (insert u ((\<lambda>j. unread (uint bs) (uint h) (uint (tcpServerClientTails s' ! j)))
                              ` {j \<in> set xs. isSet (tcpServerClientConnected s) j}))"
proof (induction xs arbitrary: u s)
  case Nil
  then show ?case by simp
next
  case (Cons x xs)
  let ?f = "\<lambda>s' j. unread (uint bs) (uint h) (uint (tcpServerClientTails s' ! j))"
  have x: "x < TCP_SERVER_MAX_CLIENTS" and xs: "\<forall>j \<in> set xs. j < TCP_SERVER_MAX_CLIENTS"
    and notin: "x \<notin> set xs" and dist: "distinct xs"
    using Cons.prems(1,2) by simp_all
  have tx: "isSet (tcpServerClientConnected s) x \<longrightarrow> tcpServerClientTails s ! x < bs"
    using Cons.prems(6) by simp
  from sendSlot_max [where w = w, OF honest Cons.prems(3) x Cons.prems(4,5) tx Cons.prems(7)]
  obtain u1 s1 where step: "sendSlot w h x (u, s) = Inr (u1, s1)" and ok1: "tablesOk s1"
    and set1: "settings s1 = settings s" and frame: "\<forall>k. k \<noteq> x \<longrightarrow> sameSlot s s1 k"
    and u1: "u1 = (if isSet (tcpServerClientConnected s) x then max u (?f s1 x) else u)"
    and pos: "0 \<le> u1"
    by blast
  have same: "\<forall>j \<in> set xs. sameSlot s s1 j" using frame notin by auto
  have bs1: "gnssHandlerBufferSize (settings s1) = bs" using set1 Cons.prems(4) by simp
  have t1: "\<forall>j \<in> set xs. isSet (tcpServerClientConnected s1) j \<longrightarrow> tcpServerClientTails s1 ! j < bs"
    using Cons.prems(6) same by (simp add: sameSlot_def)
  from Cons.IH [OF dist xs ok1 bs1 Cons.prems(5) t1 pos]
  obtain u' s' where rest: "forEach (sendSlot w h) xs (u1, s1) = Inr (u', s')"
    and u': "u' = Max (insert u1 (?f s' ` {j \<in> set xs. isSet (tcpServerClientConnected s1) j}))"
    by blast
  from sendPass_frame [OF ok1 xs notin, of w h u1] rest
  have keep: "sameSlot s1 s' x" by auto
  have occ: "{j \<in> set xs. isSet (tcpServerClientConnected s1) j}
             = {j \<in> set xs. isSet (tcpServerClientConnected s) j}"
    using same by (auto simp: sameSlot_def)
  have fx: "?f s1 x = ?f s' x" using keep by (simp add: sameSlot_def)
  let ?A = "?f s' ` {j \<in> set xs. isSet (tcpServerClientConnected s) j}"
  have fin: "finite ?A" by simp
  have "u' = Max (insert u (?f s' ` {j \<in> set (x # xs). isSet (tcpServerClientConnected s) j}))"
  proof (cases "isSet (tcpServerClientConnected s) x")
    case True
    then have "{j \<in> set (x # xs). isSet (tcpServerClientConnected s) j}
               = insert x {j \<in> set xs. isSet (tcpServerClientConnected s) j}" by auto
    then have "?f s' ` {j \<in> set (x # xs). isSet (tcpServerClientConnected s) j} = insert (?f s' x) ?A"
      by simp
    moreover have "u' = Max (insert (max u (?f s' x)) ?A)"
      using u' u1 True by (simp add: occ fx)
    ultimately show ?thesis using Max_insert_max [OF fin, of u "?f s' x"] by simp
  next
    case False
    then have "{j \<in> set (x # xs). isSet (tcpServerClientConnected s) j}
               = {j \<in> set xs. isSet (tcpServerClientConnected s) j}" by auto
    then show ?thesis using u' u1 False by (simp add: occ)
  qed
  then show ?case using step rest by simp
qed

text \<open>
  The value of a pass over the slots that are connected when it begins. Let the table
  satisfy its invariant, the head and the tails of the connected slots be below the
  buffer size \<open>C\<close>, and no write report more bytes than it was asked to send. Then
  \<open>tcpServerSendData\<close> returns the maximum, over the slots that are connected when the
  pass begins, of \<open>(dataHead - tail) mod C\<close> for the tail the slot has after the pass,
  and 0 when no slot is connected; the tail of a slot that is not connected when the pass
  begins does not enter the maximum.
\<close>

lemma usedSpace_is_max_unread:
  assumes "tablesOk s"
    and "dataHead < gnssHandlerBufferSize (settings s)"
    and "\<forall>index \<in> set [0 ..< TCP_SERVER_MAX_CLIENTS].
           isSet (tcpServerClientConnected s) index
           \<longrightarrow> tcpServerClientTails s ! index < gnssHandlerBufferSize (settings s)"
    and "\<And>index len. unat (sockWrite index len) \<le> unat len"
  shows "\<exists>usedSpace s'.
      tcpServerSendData sockWrite dataHead s = Inr (usedSpace, s')
      \<and> usedSpace = maxUnread (uint (gnssHandlerBufferSize (settings s))) (uint dataHead)
                       (tcpServerClientConnected s) (tcpServerClientTails s')
      \<and> (tcpServerClientConnected s = 0 \<longrightarrow> usedSpace = 0)"
proof -
  from sendPass_max [where w = sockWrite and xs = "[0 ..< TCP_SERVER_MAX_CLIENTS]" and u = 0
      and bs = "gnssHandlerBufferSize (settings s)", OF assms(4) _ _ assms(1) refl assms(2,3)]
  obtain usedSpace s' where
    run: "tcpServerSendData sockWrite dataHead s = Inr (usedSpace, s')"
    and m: "usedSpace = maxUnread (uint (gnssHandlerBufferSize (settings s))) (uint dataHead)
                       (tcpServerClientConnected s) (tcpServerClientTails s')"
    unfolding tcpServerSendData_def maxUnread_def by auto
  have "tcpServerClientConnected s = 0 \<longrightarrow> usedSpace = 0"
    by (simp add: m maxUnread_def isSet_zero)
  with run m show ?thesis by blast
qed

lemmas send_eval = tcpServerSendData_def sendSlot_def tcpServerClientSendData_def bytesBehind_def
  clipToEnd_def advanceTail_def isSet_def slotMask_def whenDo_def debugOr_def clearPdClientData_def
  TCP_SERVER_MAX_CLIENTS_def upt_rec Let_def

lemma ucast_honest: "unat (ucast (len :: 16 word) :: 32 word) \<le> unat len"
  by (simp add: unsigned_ucast_eq)

lemma wrapState_pass:
  "tcpServerSendData (\<lambda>index len. ucast len) 20 wrapState =
     Inr (20, wrapState\<lparr>tcpServerClient :=
                           [Some \<lparr>remoteIP = 1, stopped = False, writes = [(990, 10)]\<rparr>,
                            Some \<lparr>remoteIP = 2, stopped = False, writes = [(5, 15)]\<rparr>, None, None],
                         tcpServerClientTails := [0, 20, 20, 20]\<rparr>)"
  by (simp add: send_eval wrapState_def twoClients_def runningState_def bootState_def)

lemma usedSpace_is_max_unread_witness:
  "tcpServerSendData (\<lambda>index len. ucast len) 20 wrapState =
     Inr (20, wrapState\<lparr>tcpServerClient :=
                           [Some \<lparr>remoteIP = 1, stopped = False, writes = [(990, 10)]\<rparr>,
                            Some \<lparr>remoteIP = 2, stopped = False, writes = [(5, 15)]\<rparr>, None, None],
                         tcpServerClientTails := [0, 20, 20, 20]\<rparr>)
   \<and> maxUnread 1000 20 3 [0, 20, 20, 20] = 20"
proof -
  have range: "\<forall>index \<in> set [0 ..< TCP_SERVER_MAX_CLIENTS].
           isSet (tcpServerClientConnected wrapState) index
           \<longrightarrow> tcpServerClientTails wrapState ! index < gnssHandlerBufferSize (settings wrapState)"
    unfolding all_slots
    by (simp add: wrapState_def twoClients_def runningState_def bootState_def)
  have head: "20 < gnssHandlerBufferSize (settings wrapState)"
    by (simp add: wrapState_def twoClients_def runningState_def bootState_def)
  from usedSpace_is_max_unread [OF tablesOk_wrapState head range, of "\<lambda>index len. ucast len"]
    ucast_honest wrapState_pass
  show ?thesis
    by (simp add: wrapState_def twoClients_def runningState_def bootState_def)
qed

text \<open>
  Claim C2. Clients are connected in slots 0 and 1. Slot 0 has read up to the head 50;
  slot 1 lags at 5 and its write fails, so \<open>tcpServerClientSendData\<close> clears its
  connected bit. The pass still folds the 45 bytes behind slot 1 into \<^verbatim>\<open>usedSpace\<close> and
  returns 45, while the maximum over the slots that are occupied when the value is
  returned is 0. With the failing client alone in the table, 45 is returned with no slot
  occupied.
\<close>

theorem failed_write_still_counted:
  "tcpServerSendData (\<lambda>index len. if index = 1 then 0 else ucast len) 50 staleWriter
     = Inr (45, staleWriterDropped)
   \<and> tcpServerClientConnected staleWriterDropped = 1
   \<and> maxUnread 1000 50 (tcpServerClientConnected staleWriterDropped)
        (tcpServerClientTails staleWriterDropped) = 0
   \<and> tcpServerSendData (\<lambda>index len. 0) 50 laggingClient = Inr (45, afterFailedWrite)
   \<and> tcpServerClientConnected afterFailedWrite = 0"
proof -
  have "{index \<in> set [0 ..< TCP_SERVER_MAX_CLIENTS]. isSet (1 :: 8 word) index} = {0}"
    by (auto simp: TCP_SERVER_MAX_CLIENTS_def isSet_bit bit_1_iff)
  then have "maxUnread 1000 50 1 [50, 5, 50, 50] = 0"
    by (simp add: maxUnread_def unread_def)
  moreover have "tcpServerSendData (\<lambda>index len. if index = 1 then 0 else ucast len) 50 staleWriter
     = Inr (45, staleWriterDropped)"
    by (simp add: send_eval staleWriter_def staleWriterDropped_def twoClients_def runningState_def
        bootState_def)
  moreover have "tcpServerSendData (\<lambda>index len. 0) 50 laggingClient = Inr (45, afterFailedWrite)"
    by (simp add: send_eval laggingClient_def afterFailedWrite_def oneClient_def newClient_def
        runningState_def bootState_def)
  ultimately show ?thesis
    by (simp add: staleWriterDropped_def afterFailedWrite_def)
qed

theorem failed_write_still_counted_witness:
  "(\<exists>s'. tcpServerSendData (\<lambda>index len. if index = 1 then 0 else ucast len) 50 staleWriter
            = Inr (45, s')
         \<and> maxUnread 1000 50 (tcpServerClientConnected s') (tcpServerClientTails s') = 0)
   \<and> (\<exists>s'. tcpServerSendData (\<lambda>index len. 0) 50 laggingClient = Inr (45, s')
         \<and> tcpServerClientConnected s' = 0)"
  using failed_write_still_counted by blast

section \<open>Properties of tcpServerUpdate while running\<close>

lemma sameService_refl: "sameService s s"
  by (simp add: sameService_def)

lemma sameService_trans: "sameService a b \<Longrightarrow> sameService b c \<Longrightarrow> sameService a c"
  by (simp add: sameService_def)

lemma checkClient_free:
  "\<not> isSet (tcpServerClientConnected s) i \<Longrightarrow> checkClient e i s = Inr s"
  by (simp add: checkClient_def)

lemma checkClient_keep:
  "isSet (tcpServerClientConnected s) i \<Longrightarrow> tcpServerClient s ! i = Some c \<Longrightarrow>
   clientConnected e i \<Longrightarrow>
   millis e - tcpServerTimer s < TCP_SERVER_CLIENT_DATA_TIMEOUT \<or> isSet (tcpServerClientDataSent s) i \<Longrightarrow>
   checkClient e i s =
   Inr (s\<lparr>pdTcpServerData := pdTcpServerData s \<and> \<not> (pdTcpServerData s \<and> \<not> inMainMenu s)\<rparr>)"
  by (simp add: checkClient_def Let_def whenDo_simps)

lemma checkClient_drop:
  "isSet (tcpServerClientConnected s) i \<Longrightarrow> tcpServerClient s ! i = Some c \<Longrightarrow>
   \<not> (clientConnected e i \<and>
      (millis e - tcpServerTimer s < TCP_SERVER_CLIENT_DATA_TIMEOUT \<or> isSet (tcpServerClientDataSent s) i)) \<Longrightarrow>
   checkClient e i s = tcpServerStopClient i s"
  by (auto simp: checkClient_def Let_def)

text \<open>What one round of the first loop does to the slot it looks at, and to the others.\<close>

lemma checkClient_step:
  assumes ok: "tablesOk s" and i: "i < TCP_SERVER_MAX_CLIENTS"
  shows "\<exists>s'. checkClient e i s = Inr s' \<and> tablesOk s' \<and> sameService s s'
           \<and> tcpServerClientDataSent s' = tcpServerClientDataSent s
           \<and> (\<forall>k. k \<noteq> i \<longrightarrow> sameSlot s s' k)
           \<and> (if isSet (tcpServerClientConnected s) i
                  \<and> \<not> (clientConnected e i \<and>
                        (millis e - tcpServerTimer s < TCP_SERVER_CLIENT_DATA_TIMEOUT
                         \<or> isSet (tcpServerClientDataSent s) i))
               then \<not> isSet (tcpServerClientConnected s') i
                    \<and> (\<exists>c. tcpServerClient s ! i = Some c
                             \<and> tcpServerClient s' ! i = Some (c\<lparr>stopped := True\<rparr>))
               else sameSlot s s' i)"
proof (cases "isSet (tcpServerClientConnected s) i")
  case False
  then show ?thesis using ok
    by (simp add: checkClient_free sameService_def sameSlot_def)
next
  case True
  from tablesOk_client [OF ok i True] obtain c where c: "tcpServerClient s ! i = Some c" ..
  have len: "i < length (tcpServerClient s)" using ok i by (simp add: tablesOk_def)
  show ?thesis
  proof (cases "clientConnected e i \<and>
      (millis e - tcpServerTimer s < TCP_SERVER_CLIENT_DATA_TIMEOUT \<or> isSet (tcpServerClientDataSent s) i)")
    case keep: True
    then show ?thesis using True c ok
      by (simp add: checkClient_keep sameService_def sameSlot_def tablesOk_def)
  next
    case drop: False
    show ?thesis
      unfolding checkClient_drop [OF True c drop] stopClient_Some [OF c]
      using True drop ok len c
      by (auto simp: sameService_def sameSlot_def tablesOk_def isSet_and_not nth_list_update)
  qed
qed

lemma checkLoop_frame:
  assumes ok: "tablesOk s" and xs: "\<forall>j \<in> set xs. j < TCP_SERVER_MAX_CLIENTS" and k: "k \<notin> set xs"
  shows "\<exists>s'. forEach (checkClient e) xs s = Inr s' \<and> tablesOk s'
           \<and> (sameService s s' \<and> tcpServerClientDataSent s' = tcpServerClientDataSent s
               \<and> sameSlot s s' k)"
proof (rule forEach_invariant [where I = tablesOk])
  fix j s0
  assume j: "j \<in> set xs" and inv: "tablesOk s0"
  from j xs k have "j < TCP_SERVER_MAX_CLIENTS" "k \<noteq> j" by auto
  with checkClient_step [OF inv, of j e]
  show "\<exists>s'. checkClient e j s0 = Inr s' \<and> tablesOk s'
          \<and> (sameService s0 s' \<and> tcpServerClientDataSent s' = tcpServerClientDataSent s0
              \<and> sameSlot s0 s' k)"
    by blast
next
  show "tablesOk s" by (rule ok)
qed (auto simp: sameSlot_def sameService_def)

lemma checkLoop_slot:
  assumes ok: "tablesOk s" and i: "i < TCP_SERVER_MAX_CLIENTS"
  shows "\<exists>s'. forEach (checkClient e) [0 ..< TCP_SERVER_MAX_CLIENTS] s = Inr s' \<and> tablesOk s'
           \<and> sameService s s'
           \<and> tcpServerClientDataSent s' = tcpServerClientDataSent s
           \<and> (if isSet (tcpServerClientConnected s) i
                  \<and> \<not> (clientConnected e i \<and>
                        (millis e - tcpServerTimer s < TCP_SERVER_CLIENT_DATA_TIMEOUT
                         \<or> isSet (tcpServerClientDataSent s) i))
               then \<not> isSet (tcpServerClientConnected s') i
                    \<and> (\<exists>c. tcpServerClient s ! i = Some c
                             \<and> tcpServerClient s' ! i = Some (c\<lparr>stopped := True\<rparr>))
               else sameSlot s s' i)"
proof -
  have split: "[0 ..< TCP_SERVER_MAX_CLIENTS] = [0 ..< i] @ [i] @ [Suc i ..< TCP_SERVER_MAX_CLIENTS]"
    using i by (rule indices_split)
  from checkLoop_frame [OF ok, of "[0 ..< i]" i e] i
  obtain s1 where pre: "forEach (checkClient e) [0 ..< i] s = Inr s1" and ok1: "tablesOk s1"
    and sv1: "sameService s s1" and ds1: "tcpServerClientDataSent s1 = tcpServerClientDataSent s"
    and same1: "sameSlot s s1 i"
    by auto
  from checkClient_step [OF ok1 i, of e]
  obtain s2 where step: "checkClient e i s1 = Inr s2" and ok2: "tablesOk s2"
    and sv2: "sameService s1 s2" and ds2: "tcpServerClientDataSent s2 = tcpServerClientDataSent s1"
    and eff: "if isSet (tcpServerClientConnected s1) i
                  \<and> \<not> (clientConnected e i \<and>
                        (millis e - tcpServerTimer s1 < TCP_SERVER_CLIENT_DATA_TIMEOUT
                         \<or> isSet (tcpServerClientDataSent s1) i))
               then \<not> isSet (tcpServerClientConnected s2) i
                    \<and> (\<exists>c. tcpServerClient s1 ! i = Some c
                             \<and> tcpServerClient s2 ! i = Some (c\<lparr>stopped := True\<rparr>))
               else sameSlot s1 s2 i"
    by blast
  from checkLoop_frame [OF ok2, of "[Suc i ..< TCP_SERVER_MAX_CLIENTS]" i e]
  obtain s3 where post: "forEach (checkClient e) [Suc i ..< TCP_SERVER_MAX_CLIENTS] s2 = Inr s3"
    and ok3: "tablesOk s3" and sv3: "sameService s2 s3"
    and ds3: "tcpServerClientDataSent s3 = tcpServerClientDataSent s2"
    and same3: "sameSlot s2 s3 i"
    by auto
  have run: "forEach (checkClient e) [0 ..< TCP_SERVER_MAX_CLIENTS] s = Inr s3"
    by (subst split) (simp add: forEach_append pre step post)
  have sv: "sameService s s3"
    using sv1 sv2 sv3 by (blast intro: sameService_trans)
  have ds: "tcpServerClientDataSent s3 = tcpServerClientDataSent s"
    by (simp add: ds1 ds2 ds3)
  have timer1: "tcpServerTimer s1 = tcpServerTimer s" using sv1 by (simp add: sameService_def)
  have "if isSet (tcpServerClientConnected s) i
                  \<and> \<not> (clientConnected e i \<and>
                        (millis e - tcpServerTimer s < TCP_SERVER_CLIENT_DATA_TIMEOUT
                         \<or> isSet (tcpServerClientDataSent s) i))
               then \<not> isSet (tcpServerClientConnected s3) i
                    \<and> (\<exists>c. tcpServerClient s ! i = Some c
                             \<and> tcpServerClient s3 ! i = Some (c\<lparr>stopped := True\<rparr>))
               else sameSlot s s3 i"
    using eff same1 same3 by (auto simp: sameSlot_def timer1 ds1)
  with run ok3 sv ds show ?thesis by blast
qed

lemma slotAfterAccept_refl: "slotAfterAccept pending s s k"
  by (simp add: slotAfterAccept_def)

lemma acceptClients_effect:
  "tcpServer s \<noteq> None \<Longrightarrow> tablesOk s \<Longrightarrow>
   \<exists>s'. acceptClients index pending s = Inr s' \<and> tablesOk s' \<and> sameService s s'
        \<and> (\<forall>k. slotAfterAccept pending s s' k)"
proof (induction index pending s rule: acceptClients.induct)
  case (1 index pending s)
  show ?case
  proof (cases "index < TCP_SERVER_MAX_CLIENTS")
    case False
    then show ?thesis using "1.prems"
      by (auto simp: acceptClients.simps [of index] sameService_refl slotAfterAccept_refl)
  next
    case inRange: True
    show ?thesis
    proof (cases "isSet (tcpServerClientConnected s) index")
      case True
      from "1.IH"(2) [OF inRange _ "1.prems"] True
      obtain s' where "acceptClients (index + 1) pending s = Inr s'" "tablesOk s'"
        "sameService s s'" "\<forall>k. slotAfterAccept pending s s' k"
        by auto
      then show ?thesis using inRange True
        by (simp add: acceptClients.simps [of index])
    next
      case free: False
      from "1.prems"(1) obtain port where port: "tcpServer s = Some port" by auto
      show ?thesis
      proof (cases pending)
        case Nil
        then show ?thesis using inRange free port "1.prems"
          by (auto simp: acceptClients.simps [of index] sameService_refl slotAfterAccept_refl)
      next
        case (Cons ip rest)
        define s2 where "s2 = s\<lparr>tcpServerClient := (tcpServerClient s)[index := Some (newClient ip)],
             tcpServerClientIpAddress := (tcpServerClientIpAddress s)[index := ip],
             tcpServerClientConnected := tcpServerClientConnected s OR slotMask index,
             tcpServerClientDataSent := tcpServerClientDataSent s OR slotMask index,
             pdTcpServerData := pdTcpServerData s \<and> \<not> debugOr s (pdTcpServerData s)\<rparr>"
        have unfold: "acceptClients index pending s = acceptClients (index + 1) rest s2"
          using inRange free port Cons
          by (simp add: acceptClients.simps [of index] Let_def whenDo_simps s2_def newClient_def
              debugOr_def)
        have len: "index < length (tcpServerClient s)" "index < 8"
          using "1.prems"(2) inRange by (simp_all add: tablesOk_def TCP_SERVER_MAX_CLIENTS_def)
        have ok2: "tablesOk s2"
          using "1.prems"(2) len
          by (auto simp: tablesOk_def s2_def isSet_or nth_list_update)
        have srv2: "tcpServer s2 \<noteq> None" using port by (simp add: s2_def)
        have sv2: "sameService s s2" by (simp add: sameService_def s2_def)
        have step: "\<forall>k. if k = index
                        then \<not> isSet (tcpServerClientConnected s) k
                             \<and> isSet (tcpServerClientConnected s2) k
                             \<and> tcpServerClient s2 ! k = Some (newClient ip)
                        else tcpServerClient s2 ! k = tcpServerClient s ! k
                             \<and> isSet (tcpServerClientConnected s2) k = isSet (tcpServerClientConnected s) k"
          using free len by (simp add: s2_def isSet_or)
        have "\<exists>s'. acceptClients (index + 1) rest s2 = Inr s' \<and> tablesOk s' \<and> sameService s2 s'
                \<and> (\<forall>k. slotAfterAccept rest s2 s' k)"
        proof (rule "1.IH"(1) [OF inRange free port Cons _ _ srv2 ok2])
          show "s\<lparr>tcpServerClient := (tcpServerClient s)
                    [index := Some \<lparr>remoteIP = ip, stopped = False, writes = []\<rparr>],
                  tcpServerClientIpAddress := (tcpServerClientIpAddress s)[index := ip],
                  tcpServerClientConnected := tcpServerClientConnected s OR slotMask index,
                  tcpServerClientDataSent := tcpServerClientDataSent s OR slotMask index\<rparr>
                = s\<lparr>tcpServerClient := (tcpServerClient s)
                    [index := Some \<lparr>remoteIP = ip, stopped = False, writes = []\<rparr>],
                  tcpServerClientIpAddress := (tcpServerClientIpAddress s)[index := ip],
                  tcpServerClientConnected := tcpServerClientConnected s OR slotMask index,
                  tcpServerClientDataSent := tcpServerClientDataSent s OR slotMask index\<rparr>"
            by (rule refl)
          show "s2 = whenDo (debugOr (s\<lparr>tcpServerClient := (tcpServerClient s)
                    [index := Some \<lparr>remoteIP = ip, stopped = False, writes = []\<rparr>],
                  tcpServerClientIpAddress := (tcpServerClientIpAddress s)[index := ip],
                  tcpServerClientConnected := tcpServerClientConnected s OR slotMask index,
                  tcpServerClientDataSent := tcpServerClientDataSent s OR slotMask index\<rparr>)
                 (pdTcpServerData (s\<lparr>tcpServerClient := (tcpServerClient s)
                    [index := Some \<lparr>remoteIP = ip, stopped = False, writes = []\<rparr>],
                  tcpServerClientIpAddress := (tcpServerClientIpAddress s)[index := ip],
                  tcpServerClientConnected := tcpServerClientConnected s OR slotMask index,
                  tcpServerClientDataSent := tcpServerClientDataSent s OR slotMask index\<rparr>)))
                clearPdData
                (s\<lparr>tcpServerClient := (tcpServerClient s)
                    [index := Some \<lparr>remoteIP = ip, stopped = False, writes = []\<rparr>],
                  tcpServerClientIpAddress := (tcpServerClientIpAddress s)[index := ip],
                  tcpServerClientConnected := tcpServerClientConnected s OR slotMask index,
                  tcpServerClientDataSent := tcpServerClientDataSent s OR slotMask index\<rparr>)"
            by (simp add: whenDo_simps s2_def newClient_def debugOr_def)
        qed
        then obtain s' where rest: "acceptClients (index + 1) rest s2 = Inr s'" and ok': "tablesOk s'"
          and sv': "sameService s2 s'" and slots: "\<forall>k. slotAfterAccept rest s2 s' k"
          by blast
        have "\<forall>k. slotAfterAccept pending s s' k"
        proof
          fix k
          from slots have a: "slotAfterAccept rest s2 s' k" ..
          from step have b: "if k = index
                        then \<not> isSet (tcpServerClientConnected s) k
                             \<and> isSet (tcpServerClientConnected s2) k
                             \<and> tcpServerClient s2 ! k = Some (newClient ip)
                        else tcpServerClient s2 ! k = tcpServerClient s ! k
                             \<and> isSet (tcpServerClientConnected s2) k = isSet (tcpServerClientConnected s) k" ..
          show "slotAfterAccept pending s s' k"
            using a b Cons by (cases "k = index") (auto simp: slotAfterAccept_def)
        qed
        with rest ok' sv2 sv' unfold show ?thesis
          by (auto intro: sameService_trans)
      qed
    qed
  qed
qed

lemma setState_same:
  assumes "tcpServerState s < TCP_SERVER_STATE_MAX"
  shows "tcpServerSetState (tcpServerState s) s =
         Inr (s\<lparr>pdTcpServerState := pdTcpServerState s \<and> \<not> debugOr s (pdTcpServerState s)\<rparr>)"
proof -
  have "\<not> TCP_SERVER_STATE_MAX \<le> tcpServerState s" using assms by (simp add: not_le)
  then show ?thesis
    by (cases "debugTcpServer (settings s)"; cases "pdTcpServerState s"; cases "inMainMenu s")
      (simp_all add: tcpServerSetState_def Let_def clearPdState_def debugOr_def)
qed

lemma final_display:
  assumes "tcpServerState s < TCP_SERVER_STATE_MAX"
  shows "(if pdTcpServerState s \<and> \<not> inMainMenu s then tcpServerSetState (tcpServerState s) s else Inr s)
         = Inr (s\<lparr>pdTcpServerState := pdTcpServerState s \<and> inMainMenu s\<rparr>)"
  by (cases "pdTcpServerState s"; cases "inMainMenu s")
    (simp_all add: setState_same [OF assms] debugOr_def)

lemma update_enabled:
  assumes "rtkModeMatches e" "enableTcpServer (settings s)"
    and "tcpServerState s < TCP_SERVER_STATE_MAX"
  shows "tcpServerUpdate e s =
     andThen (tcpServerSwitch e
                (s\<lparr>pdTcpServerState := pdTcpServerState s
                      \<and> \<not> (dmwEnabled s \<and> debugOr s (pdTcpServerState s))\<rparr>))
       (\<lambda>s3. if pdTcpServerState s3 \<and> \<not> inMainMenu s3
              then tcpServerSetState (tcpServerState s3) s3 else Inr s3)"
  using assms(1,2)
  by (cases "dmwEnabled s") (simp_all add: tcpServerUpdate_def setState_same [OF assms(3)])

lemma switch_running:
  assumes "tcpServerState s = TCP_SERVER_STATE_RUNNING" "enableTcpServer (settings s)"
    and "\<not> networkIsShuttingDown e"
  shows "tcpServerSwitch e s =
     andThen (forEach (checkClient e) [0 ..< TCP_SERVER_MAX_CLIENTS] s)
       (\<lambda>s1. andThen (acceptClients 0 (incoming e) s1)
          (\<lambda>s2. Inr (whenDo (millis e - tcpServerTimer s2 \<ge> TCP_SERVER_CLIENT_DATA_TIMEOUT)
                       (\<lambda>s. s\<lparr>tcpServerTimer := millis e, tcpServerClientDataSent := 0\<rparr>)
                       s2)))"
  using assms by (simp add: tcpServerSwitch_def state_names)

lemma running_known: "TCP_SERVER_STATE_RUNNING < TCP_SERVER_STATE_MAX"
  by (simp add: state_names)

text \<open>One call of \<open>tcpServerUpdate\<close> while running, enabled and with the network up.\<close>

lemma update_running:
  assumes ok: "tablesOk s" and srv: "tcpServer s \<noteq> None"
    and st: "tcpServerState s = TCP_SERVER_STATE_RUNNING"
    and en: "enableTcpServer (settings s)" and mode: "rtkModeMatches e"
    and up: "\<not> networkIsShuttingDown e"
    and i: "i < TCP_SERVER_MAX_CLIENTS"
  shows "\<exists>s1 s'. tcpServerUpdate e s = Inr s' \<and> tablesOk s'
      \<and> tcpServerClientTails s' = tcpServerClientTails s
      \<and> tcpServerState s' = TCP_SERVER_STATE_RUNNING
      \<and> tcpServer s' = tcpServer s
      \<and> tcpServerTimer s' = (if millis e - tcpServerTimer s \<ge> TCP_SERVER_CLIENT_DATA_TIMEOUT
                              then millis e else tcpServerTimer s)
      \<and> (millis e - tcpServerTimer s \<ge> TCP_SERVER_CLIENT_DATA_TIMEOUT
           \<longrightarrow> tcpServerClientDataSent s' = 0)
      \<and> (if isSet (tcpServerClientConnected s) i
             \<and> \<not> (clientConnected e i \<and>
                   (millis e - tcpServerTimer s < TCP_SERVER_CLIENT_DATA_TIMEOUT
                    \<or> isSet (tcpServerClientDataSent s) i))
          then \<not> isSet (tcpServerClientConnected s1) i
               \<and> (\<exists>c. tcpServerClient s ! i = Some c
                        \<and> tcpServerClient s1 ! i = Some (c\<lparr>stopped := True\<rparr>))
          else sameSlot s s1 i)
      \<and> (\<forall>k. slotAfterAccept (incoming e) s1 s' k)"
proof -
  define sa where "sa = s\<lparr>pdTcpServerState := pdTcpServerState s
                      \<and> \<not> (dmwEnabled s \<and> debugOr s (pdTcpServerState s))\<rparr>"
  have known: "tcpServerState s < TCP_SERVER_STATE_MAX" using st running_known by simp
  have oka: "tablesOk sa" using ok by (simp add: tablesOk_def sa_def)
  have sta: "tcpServerState sa = TCP_SERVER_STATE_RUNNING" "enableTcpServer (settings sa)"
    using st en by (simp_all add: sa_def)
  have sa_fields: "tcpServerClient sa = tcpServerClient s"
    "tcpServerClientConnected sa = tcpServerClientConnected s"
    "tcpServerClientDataSent sa = tcpServerClientDataSent s"
    "tcpServerClientWriteError sa = tcpServerClientWriteError s"
    "tcpServerClientTails sa = tcpServerClientTails s"
    "tcpServerTimer sa = tcpServerTimer s"
    by (simp_all add: sa_def)
  from checkLoop_slot [OF oka i, of e]
  obtain s1 where loop1: "forEach (checkClient e) [0 ..< TCP_SERVER_MAX_CLIENTS] sa = Inr s1"
    and ok1: "tablesOk s1" and sv1: "sameService sa s1"
    and ds1: "tcpServerClientDataSent s1 = tcpServerClientDataSent sa"
    and eff: "if isSet (tcpServerClientConnected sa) i
                  \<and> \<not> (clientConnected e i \<and>
                        (millis e - tcpServerTimer sa < TCP_SERVER_CLIENT_DATA_TIMEOUT
                         \<or> isSet (tcpServerClientDataSent sa) i))
               then \<not> isSet (tcpServerClientConnected s1) i
                    \<and> (\<exists>c. tcpServerClient sa ! i = Some c
                             \<and> tcpServerClient s1 ! i = Some (c\<lparr>stopped := True\<rparr>))
               else sameSlot sa s1 i"
    by blast
  have srv1: "tcpServer s1 \<noteq> None" using sv1 srv by (simp add: sameService_def sa_def)
  from acceptClients_effect [OF srv1 ok1, of 0 "incoming e"]
  obtain s2 where loop2: "acceptClients 0 (incoming e) s1 = Inr s2" and ok2: "tablesOk s2"
    and sv2: "sameService s1 s2" and slots: "\<forall>k. slotAfterAccept (incoming e) s1 s2 k"
    by blast
  define s3 where "s3 = whenDo (millis e - tcpServerTimer s2 \<ge> TCP_SERVER_CLIENT_DATA_TIMEOUT)
                       (\<lambda>s. s\<lparr>tcpServerTimer := millis e, tcpServerClientDataSent := 0\<rparr>) s2"
  have sw: "tcpServerSwitch e sa = Inr s3"
    by (simp add: switch_running [OF sta up] loop1 loop2 s3_def)
  have sv: "sameService s s2"
    using sv1 sv2 by (simp add: sameService_def sa_def)
  have st3: "tcpServerState s3 = TCP_SERVER_STATE_RUNNING"
    using sv st by (simp add: s3_def whenDo_def sameService_def)
  then have known3: "tcpServerState s3 < TCP_SERVER_STATE_MAX" using running_known by simp
  define s' where "s' = s3\<lparr>pdTcpServerState := pdTcpServerState s3 \<and> inMainMenu s3\<rparr>"
  have run: "tcpServerUpdate e s = Inr s'"
    unfolding update_enabled [OF mode en known] sa_def [symmetric]
    by (simp only: sw andThen_Inr final_display [OF known3] s'_def)
  have fields: "tcpServerClient s' = tcpServerClient s2"
    "tcpServerClientConnected s' = tcpServerClientConnected s2"
    "tcpServerClientIpAddress s' = tcpServerClientIpAddress s2"
    "tcpServerClientTails s' = tcpServerClientTails s2"
    "tcpServer s' = tcpServer s2"
    by (simp_all add: s'_def s3_def whenDo_def)
  have ok': "tablesOk s'" using ok2 by (simp add: tablesOk_def fields)
  have timer2: "tcpServerTimer s2 = tcpServerTimer s" using sv by (simp add: sameService_def)
  have timer: "tcpServerTimer s' = (if millis e - tcpServerTimer s \<ge> TCP_SERVER_CLIENT_DATA_TIMEOUT
                              then millis e else tcpServerTimer s)"
    by (simp add: s'_def s3_def whenDo_def timer2)
  have flags: "millis e - tcpServerTimer s \<ge> TCP_SERVER_CLIENT_DATA_TIMEOUT
           \<longrightarrow> tcpServerClientDataSent s' = 0"
    by (simp add: s'_def s3_def whenDo_def timer2)
  have slots': "\<forall>k. slotAfterAccept (incoming e) s1 s' k"
    using slots by (simp add: slotAfterAccept_def fields)
  have eff': "if isSet (tcpServerClientConnected s) i
             \<and> \<not> (clientConnected e i \<and>
                   (millis e - tcpServerTimer s < TCP_SERVER_CLIENT_DATA_TIMEOUT
                    \<or> isSet (tcpServerClientDataSent s) i))
          then \<not> isSet (tcpServerClientConnected s1) i
               \<and> (\<exists>c. tcpServerClient s ! i = Some c
                        \<and> tcpServerClient s1 ! i = Some (c\<lparr>stopped := True\<rparr>))
          else sameSlot s s1 i"
    unfolding sameSlot_def using eff [unfolded sameSlot_def sa_fields] .
  have "tcpServerClientTails s' = tcpServerClientTails s"
    "tcpServerState s' = TCP_SERVER_STATE_RUNNING" "tcpServer s' = tcpServer s"
    using sv st3 by (simp_all add: sameService_def s'_def s3_def whenDo_def)
  with run ok' timer flags eff' slots' show ?thesis by blast
qed

text \<open>
  Claim C9, as amended. Take a call of \<open>tcpServerUpdate\<close> while running, enabled and
  with the network up, at which the timer shows the window of 15000 ms or more. A
  connected slot whose socket reports connected and whose data-sent bit is set stays
  connected with its client. Every other connected slot is stopped and freed in this call
  (the freed slot may take a connection that was waiting). All data-sent bits are then
  cleared and the timer restarts. So a slot is dropped by the first sweep that finds its
  bit clear, which for a bit set by the accept or by an earlier write is the sweep after
  the next one at the latest, not once 15001 ms have passed without a write.
\<close>

theorem liveness_sweep:
  assumes "tablesOk s" and "tcpServer s \<noteq> None"
    and "tcpServerState s = TCP_SERVER_STATE_RUNNING"
    and "enableTcpServer (settings s)" and "rtkModeMatches e"
    and "\<not> networkIsShuttingDown e"
    and "index < TCP_SERVER_MAX_CLIENTS"
    and "isSet (tcpServerClientConnected s) index"
    and "tcpServerClient s ! index = Some c"
    and "TCP_SERVER_CLIENT_DATA_TIMEOUT \<le> millis e - tcpServerTimer s"
  shows "\<exists>s'. tcpServerUpdate e s = Inr s'
      \<and> tcpServerTimer s' = millis e
      \<and> tcpServerClientDataSent s' = 0
      \<and> (if clientConnected e index \<and> isSet (tcpServerClientDataSent s) index
          then isSet (tcpServerClientConnected s') index \<and> tcpServerClient s' ! index = Some c
          else (\<not> isSet (tcpServerClientConnected s') index
                \<and> tcpServerClient s' ! index = Some (c\<lparr>stopped := True\<rparr>))
             \<or> (isSet (tcpServerClientConnected s') index
                \<and> (\<exists>ip \<in> set (incoming e). tcpServerClient s' ! index = Some (newClient ip))))"
proof -
  have late: "\<not> millis e - tcpServerTimer s < TCP_SERVER_CLIENT_DATA_TIMEOUT"
    using assms(10) by (simp add: not_less)
  from update_running [OF assms(1-7)]
  obtain s1 s' where run: "tcpServerUpdate e s = Inr s'"
    and timer: "tcpServerTimer s' = millis e" and flags: "tcpServerClientDataSent s' = 0"
    and eff: "if \<not> (clientConnected e index \<and> isSet (tcpServerClientDataSent s) index)
          then \<not> isSet (tcpServerClientConnected s1) index
               \<and> (\<exists>c. tcpServerClient s ! index = Some c
                        \<and> tcpServerClient s1 ! index = Some (c\<lparr>stopped := True\<rparr>))
          else sameSlot s s1 index"
    and slot: "slotAfterAccept (incoming e) s1 s' index"
    using assms(8,10) late by auto
  have "if clientConnected e index \<and> isSet (tcpServerClientDataSent s) index
          then isSet (tcpServerClientConnected s') index \<and> tcpServerClient s' ! index = Some c
          else (\<not> isSet (tcpServerClientConnected s') index
                \<and> tcpServerClient s' ! index = Some (c\<lparr>stopped := True\<rparr>))
             \<or> (isSet (tcpServerClientConnected s') index
                \<and> (\<exists>ip \<in> set (incoming e). tcpServerClient s' ! index = Some (newClient ip)))"
  proof (cases "clientConnected e index \<and> isSet (tcpServerClientDataSent s) index")
    case True
    with eff have "sameSlot s s1 index" by simp
    then have "isSet (tcpServerClientConnected s1) index" "tcpServerClient s1 ! index = Some c"
      using assms(8,9) by (simp_all add: sameSlot_def)
    with slot True show ?thesis by (auto simp: slotAfterAccept_def)
  next
    case False
    with eff assms(9) have "\<not> isSet (tcpServerClientConnected s1) index"
      "tcpServerClient s1 ! index = Some (c\<lparr>stopped := True\<rparr>)" by auto
    with slot False show ?thesis by (auto simp: slotAfterAccept_def)
  qed
  with run timer flags show ?thesis by blast
qed

lemmas update_eval = tcpServerUpdate_def tcpServerSwitch_def checkClient_def
  tcpServerStopClient_def tcpServerSetState_def tcpServerStop_def acceptClients.simps
  whenDo_def debugOr_def clearPdData_def clearPdState_def isSet_def slotMask_def
  TCP_SERVER_MAX_CLIENTS_def TCP_SERVER_CLIENT_DATA_TIMEOUT_def state_names upt_rec Let_def
  newClient_def

text \<open>
  From boot the server reaches the running state in two calls: the first asks for the
  network, the second, a second later, starts the listener.
\<close>

lemma boot_reaches_running:
  "andThen (tcpServerUpdate calmEnv bootState) (tcpServerUpdate (calmEnv\<lparr>millis := 1000\<rparr>))
     = Inr (runningState\<lparr>tcpServerTimer := 1000\<rparr>)"
  by (simp add: update_eval tcpServerStart_def runningState_def bootState_def calmEnv_def)

lemma accept_tick:
  "tcpServerUpdate (calmEnv\<lparr>incoming := [9]\<rparr>) runningState = Inr oneClient"
  by (simp add: update_eval oneClient_def runningState_def bootState_def calmEnv_def)

lemma idle_tick:
  "tcpServerUpdate (calmEnv\<lparr>millis := 15001\<rparr>) oneClient
     = Inr (oneClient\<lparr>tcpServerTimer := 15001, tcpServerClientDataSent := 0\<rparr>)"
  by (simp add: update_eval oneClient_def runningState_def bootState_def calmEnv_def)

text \<open>
  Claim C9 as stated fails: a client accepted at time 0, to which nothing is written, is
  still connected after the call at 15001 ms; that sweep only clears the bit the accept
  had set.
\<close>

theorem idle_client_survives_counterexample:
  "tcpServerUpdate (calmEnv\<lparr>incoming := [9]\<rparr>) runningState = Inr oneClient
   \<and> tcpServerUpdate (calmEnv\<lparr>millis := 15001\<rparr>) oneClient
       = Inr (oneClient\<lparr>tcpServerTimer := 15001, tcpServerClientDataSent := 0\<rparr>)
   \<and> isSet (tcpServerClientConnected
              (oneClient\<lparr>tcpServerTimer := 15001, tcpServerClientDataSent := 0\<rparr>)) 0
   \<and> tcpServerClient (oneClient\<lparr>tcpServerTimer := 15001, tcpServerClientDataSent := 0\<rparr>) ! 0
       = Some \<lparr>remoteIP = 9, stopped = False, writes = []\<rparr>"
  using accept_tick idle_tick
  by (simp add: oneClient_def isSet_def slotMask_def newClient_def)

lemma tablesOk_oneClient: "tablesOk oneClient"
  unfolding tablesOk_def all_slots
  by (simp add: oneClient_def runningState_def bootState_def
      TCP_SERVER_MAX_CLIENTS_def isSet_def slotMask_def)

text \<open>The same client at the next sweep, at 30002 ms: its bit is clear and it is dropped.\<close>

theorem liveness_sweep_witness:
  "\<exists>s'. tcpServerUpdate (calmEnv\<lparr>millis := 30002\<rparr>)
            (oneClient\<lparr>tcpServerTimer := 15001, tcpServerClientDataSent := 0\<rparr>) = Inr s'
        \<and> tcpServerTimer s' = 30002
        \<and> tcpServerClientDataSent s' = 0
        \<and> \<not> isSet (tcpServerClientConnected s') 0
        \<and> tcpServerClient s' ! 0 = Some \<lparr>remoteIP = 9, stopped = True, writes = []\<rparr>"
proof -
  have ok: "tablesOk (oneClient\<lparr>tcpServerTimer := 15001, tcpServerClientDataSent := 0\<rparr>)"
    using tablesOk_oneClient by (simp add: tablesOk_def)
  from liveness_sweep [OF ok, of "calmEnv\<lparr>millis := 30002\<rparr>" 0 "newClient 9"]
  show ?thesis
    by (simp add: oneClient_def runningState_def bootState_def calmEnv_def isSet_def slotMask_def
        TCP_SERVER_MAX_CLIENTS_def TCP_SERVER_CLIENT_DATA_TIMEOUT_def state_names newClient_def)
qed

section \<open>Accepting clients and leaving the running state\<close>








text \<open>
  Claim C7. One client is connected in slot 0 and slots 1 to 3 have never held a client,
  so their pointers are null. When the server is disabled (and likewise when the network
  shuts down), \<open>tcpServerStop\<close> calls \<open>tcpServerStopClient\<close> for every index and the
  call for slot 1 goes through the null pointer: the transition out of the running state
  does not complete.
\<close>

theorem stop_dereferences_unused_slot:
  "tcpServerUpdate calmEnv
     (oneClient\<lparr>settings := (settings oneClient)\<lparr>enableTcpServer := False\<rparr>\<rparr>) = Inl NullPointer
   \<and> tcpServerUpdate (calmEnv\<lparr>networkIsShuttingDown := True\<rparr>) oneClient = Inl NullPointer"
  by (simp add: update_eval oneClient_def runningState_def bootState_def calmEnv_def)

text \<open>Neither call returns a state.\<close>

theorem stop_dereferences_unused_slot_witness:
  "(\<nexists>s'. tcpServerUpdate calmEnv
            (oneClient\<lparr>settings := (settings oneClient)\<lparr>enableTcpServer := False\<rparr>\<rparr>) = Inr s')
   \<and> (\<nexists>s'. tcpServerUpdate (calmEnv\<lparr>networkIsShuttingDown := True\<rparr>) oneClient = Inr s')"
  using stop_dereferences_unused_slot by simp

section \<open>Leaving the running state when no client pointer is null\<close>

lemma stopClient_step:
  assumes ok: "tablesOk s" and all: "allAllocated s" and i: "i < TCP_SERVER_MAX_CLIENTS"
  shows "\<exists>s'. tcpServerStopClient i s = Inr s' \<and> (tablesOk s' \<and> allAllocated s')
      \<and> (sameService s s' \<and> onlineTcpServer s' = onlineTcpServer s \<and> (\<forall>k. staysClosed s s' k))
      \<and> \<not> isSet (tcpServerClientConnected s') i
      \<and> (\<exists>c. tcpServerClient s' ! i = Some c \<and> stopped c)"
proof -
  from i have "i \<in> set [0 ..< TCP_SERVER_MAX_CLIENTS]" by simp
  with all have "tcpServerClient s ! i \<noteq> None" unfolding allAllocated_def by blast
  then obtain c where c: "tcpServerClient s ! i = Some c" by blast
  have len: "i < length (tcpServerClient s)" using ok i by (simp add: tablesOk_def)
  show ?thesis
    unfolding stopClient_Some [OF c]
    using ok all len c
    by (auto simp: tablesOk_def allAllocated_def sameService_def staysClosed_def isSet_and_not
        nth_list_update)
qed

lemma stopLoop_frame:
  assumes ok: "tablesOk s" and all: "allAllocated s"
    and xs: "\<forall>j \<in> set xs. j < TCP_SERVER_MAX_CLIENTS"
  shows "\<exists>s'. forEach tcpServerStopClient xs s = Inr s' \<and> (tablesOk s' \<and> allAllocated s')
      \<and> (sameService s s' \<and> onlineTcpServer s' = onlineTcpServer s \<and> (\<forall>k. staysClosed s s' k))"
proof (rule forEach_invariant [where I = "\<lambda>s. tablesOk s \<and> allAllocated s"])
  fix j s0
  assume j: "j \<in> set xs" and inv: "tablesOk s0 \<and> allAllocated s0"
  from j xs have "j < TCP_SERVER_MAX_CLIENTS" by auto
  with stopClient_step [of s0 j] inv
  show "\<exists>s'. tcpServerStopClient j s0 = Inr s' \<and> (tablesOk s' \<and> allAllocated s')
      \<and> (sameService s0 s' \<and> onlineTcpServer s' = onlineTcpServer s0 \<and> (\<forall>k. staysClosed s0 s' k))"
    by blast
next
  show "tablesOk s \<and> allAllocated s" using ok all by simp
next
  fix a b c
  assume "sameService a b \<and> onlineTcpServer b = onlineTcpServer a \<and> (\<forall>k. staysClosed a b k)"
    and "sameService b c \<and> onlineTcpServer c = onlineTcpServer b \<and> (\<forall>k. staysClosed b c k)"
  then show "sameService a c \<and> onlineTcpServer c = onlineTcpServer a \<and> (\<forall>k. staysClosed a c k)"
    by (auto simp: sameService_def staysClosed_def)
qed (simp add: sameService_def staysClosed_def)

lemma stopLoop_slot:
  assumes ok: "tablesOk s" and all: "allAllocated s" and i: "i < TCP_SERVER_MAX_CLIENTS"
  shows "\<exists>s'. forEach tcpServerStopClient [0 ..< TCP_SERVER_MAX_CLIENTS] s = Inr s'
      \<and> tablesOk s' \<and> sameService s s' \<and> onlineTcpServer s' = onlineTcpServer s
      \<and> (\<forall>k. isSet (tcpServerClientConnected s') k \<longrightarrow> isSet (tcpServerClientConnected s) k)
      \<and> \<not> isSet (tcpServerClientConnected s') i
      \<and> (\<exists>c. tcpServerClient s' ! i = Some c \<and> stopped c)"
proof -
  have split: "[0 ..< TCP_SERVER_MAX_CLIENTS] = [0 ..< i] @ [i] @ [Suc i ..< TCP_SERVER_MAX_CLIENTS]"
    using i by (rule indices_split)
  from stopLoop_frame [OF ok all, of "[0 ..< i]"] i
  obtain s1 where pre: "forEach tcpServerStopClient [0 ..< i] s = Inr s1"
    and ok1: "tablesOk s1" "allAllocated s1"
    and r1: "sameService s s1" "onlineTcpServer s1 = onlineTcpServer s" "\<forall>k. staysClosed s s1 k"
    by auto
  from stopClient_step [OF ok1 i]
  obtain s2 where step: "tcpServerStopClient i s1 = Inr s2"
    and ok2: "tablesOk s2" "allAllocated s2"
    and r2: "sameService s1 s2" "onlineTcpServer s2 = onlineTcpServer s1" "\<forall>k. staysClosed s1 s2 k"
    and closed2: "\<not> isSet (tcpServerClientConnected s2) i"
      "\<exists>c. tcpServerClient s2 ! i = Some c \<and> stopped c"
    by blast
  from stopLoop_frame [OF ok2, of "[Suc i ..< TCP_SERVER_MAX_CLIENTS]"]
  obtain s3 where post: "forEach tcpServerStopClient [Suc i ..< TCP_SERVER_MAX_CLIENTS] s2 = Inr s3"
    and ok3: "tablesOk s3"
    and r3: "sameService s2 s3" "onlineTcpServer s3 = onlineTcpServer s2" "\<forall>k. staysClosed s2 s3 k"
    by auto
  have run: "forEach tcpServerStopClient [0 ..< TCP_SERVER_MAX_CLIENTS] s = Inr s3"
    by (subst split) (simp add: forEach_append pre step post)
  have "sameService s s3" using r1(1) r2(1) r3(1) by (blast intro: sameService_trans)
  moreover have "onlineTcpServer s3 = onlineTcpServer s" by (simp add: r1(2) r2(2) r3(2))
  moreover have "\<forall>k. isSet (tcpServerClientConnected s3) k \<longrightarrow> isSet (tcpServerClientConnected s) k"
    using r1(3) r2(3) r3(3) by (simp add: staysClosed_def)
  moreover have "\<not> isSet (tcpServerClientConnected s3) i" "\<exists>c. tcpServerClient s3 ! i = Some c \<and> stopped c"
    using closed2 r3(3) by (auto simp: staysClosed_def)
  ultimately show ?thesis using run ok3 by blast
qed

lemma setState_known:
  assumes "newState < TCP_SERVER_STATE_MAX"
  shows "tcpServerSetState newState s =
         Inr (s\<lparr>tcpServerState := newState,
                pdTcpServerState := pdTcpServerState s \<and> \<not> debugOr s (pdTcpServerState s)\<rparr>)"
proof -
  have "\<not> TCP_SERVER_STATE_MAX \<le> newState" using assms by (simp add: not_le)
  then show ?thesis
    by (cases "debugTcpServer (settings s)"; cases "pdTcpServerState s"; cases "inMainMenu s")
      (simp_all add: tcpServerSetState_def Let_def clearPdState_def debugOr_def)
qed

lemma off_known: "TCP_SERVER_STATE_OFF < TCP_SERVER_STATE_MAX"
  by (simp add: state_names)

text \<open>
  \<open>tcpServerStop\<close> on a table in which no client is connected or every slot has held
  one: it returns with everything closed.
\<close>

lemma tcpServerStop_closes:
  assumes ok: "tablesOk s"
    and alloc: "tcpServerClientConnected s = 0 \<or> allAllocated s"
    and low: "\<forall>k. isSet (tcpServerClientConnected s) k \<longrightarrow> k < TCP_SERVER_MAX_CLIENTS"
    and st: "tcpServerState s \<noteq> TCP_SERVER_STATE_OFF"
  shows "\<exists>s'. tcpServerStop e s = Inr s'
      \<and> settings s' = settings s \<and> inMainMenu s' = inMainMenu s
      \<and> tcpServerClientConnected s' = 0 \<and> tcpServer s' = None
      \<and> \<not> networkUser s' \<and> \<not> onlineTcpServer s'
      \<and> tcpServerState s' = TCP_SERVER_STATE_OFF \<and> tcpServerTimer s' = millis e
      \<and> (\<forall>i \<in> set [0 ..< TCP_SERVER_MAX_CLIENTS]. isSet (tcpServerClientConnected s) i
             \<longrightarrow> (\<exists>c. tcpServerClient s' ! i = Some c \<and> stopped c))"
proof -
  define s1 where "s1 = s\<lparr>onlineTcpServer := False\<rparr>"
  have ok1: "tablesOk s1" using ok by (simp add: tablesOk_def s1_def)
  have "\<exists>s2. (if tcpServerClientConnected s1 \<noteq> 0
              then forEach tcpServerStopClient [0 ..< TCP_SERVER_MAX_CLIENTS] s1 else Inr s1) = Inr s2
      \<and> sameService s1 s2 \<and> \<not> onlineTcpServer s2 \<and> tcpServerClientConnected s2 = 0
      \<and> (\<forall>i \<in> set [0 ..< TCP_SERVER_MAX_CLIENTS]. isSet (tcpServerClientConnected s) i
             \<longrightarrow> (\<exists>c. tcpServerClient s2 ! i = Some c \<and> stopped c))"
  proof (cases "tcpServerClientConnected s = 0")
    case True
    then show ?thesis by (simp add: s1_def sameService_def isSet_zero)
  next
    case False
    with alloc have all1: "allAllocated s1" by (simp add: allAllocated_def s1_def)
    from stopLoop_frame [OF ok1 all1, of "[0 ..< TCP_SERVER_MAX_CLIENTS]"]
    obtain s2 where run: "forEach tcpServerStopClient [0 ..< TCP_SERVER_MAX_CLIENTS] s1 = Inr s2"
      and sv: "sameService s1 s2" and on: "onlineTcpServer s2 = onlineTcpServer s1"
      by auto
    have slot: "\<not> isSet (tcpServerClientConnected s2) i
                \<and> (\<exists>c. tcpServerClient s2 ! i = Some c \<and> stopped c)
                \<and> (\<forall>k. isSet (tcpServerClientConnected s2) k \<longrightarrow> isSet (tcpServerClientConnected s1) k)"
      if "i < TCP_SERVER_MAX_CLIENTS" for i
      using stopLoop_slot [OF ok1 all1 that] run by auto
    have "\<not> isSet (tcpServerClientConnected s2) k" for k
    proof
      assume k: "isSet (tcpServerClientConnected s2) k"
      have "0 < TCP_SERVER_MAX_CLIENTS" by (simp add: TCP_SERVER_MAX_CLIENTS_def)
      from slot [OF this] k have "isSet (tcpServerClientConnected s1) k" by blast
      then have "k < TCP_SERVER_MAX_CLIENTS" using low by (simp add: s1_def)
      from slot [OF this] k show False by blast
    qed
    then have zero: "tcpServerClientConnected s2 = 0" by (simp add: eq_zero_isSet)
    have "\<forall>i \<in> set [0 ..< TCP_SERVER_MAX_CLIENTS]. isSet (tcpServerClientConnected s) i
             \<longrightarrow> (\<exists>c. tcpServerClient s2 ! i = Some c \<and> stopped c)"
      using slot by simp
    with run sv on zero False show ?thesis by (simp add: s1_def)
  qed
  then obtain s2 where loop: "(if tcpServerClientConnected s1 \<noteq> 0
              then forEach tcpServerStopClient [0 ..< TCP_SERVER_MAX_CLIENTS] s1 else Inr s1) = Inr s2"
    and sv: "sameService s1 s2" and off: "\<not> onlineTcpServer s2"
    and zero: "tcpServerClientConnected s2 = 0"
    and closed: "\<forall>i \<in> set [0 ..< TCP_SERVER_MAX_CLIENTS]. isSet (tcpServerClientConnected s) i
             \<longrightarrow> (\<exists>c. tcpServerClient s2 ! i = Some c \<and> stopped c)"
    by blast
  have st2: "tcpServerState s2 \<noteq> TCP_SERVER_STATE_OFF"
    using sv st by (simp add: sameService_def s1_def)
  have run: "tcpServerStop e s =
      Inr (s2\<lparr>tcpServer := None, networkUser := False, tcpServerState := TCP_SERVER_STATE_OFF,
              pdTcpServerState := pdTcpServerState s2 \<and> \<not> debugOr s2 (pdTcpServerState s2),
              tcpServerTimer := millis e\<rparr>)"
    unfolding tcpServerStop_def Let_def whenDo_offline s1_def [symmetric] loop andThen_Inr whenDo_delete
    using st2 by (simp add: setState_known [OF off_known] debugOr_def)
  show ?thesis
    unfolding run using sv off zero closed
    by (simp add: sameService_def s1_def)
qed

text \<open>
  Leaving the running state, for a table in which no client is connected or every slot
  has held one: the call returns in state OFF with no slot connected, the sockets of the
  slots that were connected stopped, the listener deleted, the network released and the
  timer restarted.
\<close>

lemma leaving_running_closes_everything:
  assumes ok: "tablesOk s"
    and st: "tcpServerState s = TCP_SERVER_STATE_RUNNING"
    and leave: "\<not> rtkModeMatches e \<or> \<not> enableTcpServer (settings s) \<or> networkIsShuttingDown e"
    and alloc: "tcpServerClientConnected s = 0 \<or> allAllocated s"
    and low: "\<forall>k. isSet (tcpServerClientConnected s) k \<longrightarrow> k < TCP_SERVER_MAX_CLIENTS"
  shows "\<exists>s'. tcpServerUpdate e s = Inr s'
      \<and> tcpServerClientConnected s' = 0 \<and> tcpServer s' = None
      \<and> \<not> networkUser s' \<and> \<not> onlineTcpServer s'
      \<and> tcpServerState s' = TCP_SERVER_STATE_OFF \<and> tcpServerTimer s' = millis e
      \<and> (\<forall>i \<in> set [0 ..< TCP_SERVER_MAX_CLIENTS]. isSet (tcpServerClientConnected s) i
             \<longrightarrow> (\<exists>c. tcpServerClient s' ! i = Some c \<and> stopped c))"
proof -
  define sa where "sa = s\<lparr>pdTcpServerState := pdTcpServerState s
                      \<and> \<not> (dmwEnabled s \<and> debugOr s (pdTcpServerState s))\<rparr>"
  have known: "tcpServerState s < TCP_SERVER_STATE_MAX" using st running_known by simp
  have dmw: "(if dmwEnabled s then tcpServerSetState (tcpServerState s) s else Inr s) = Inr sa"
    by (cases "dmwEnabled s") (simp_all add: setState_same [OF known] sa_def)
  have sa: "tablesOk sa" "tcpServerState sa = TCP_SERVER_STATE_RUNNING"
    "settings sa = settings s"
    "tcpServerClientConnected sa = 0 \<or> allAllocated sa"
    "\<forall>k. isSet (tcpServerClientConnected sa) k \<longrightarrow> k < TCP_SERVER_MAX_CLIENTS"
    "tcpServerClientConnected sa = tcpServerClientConnected s"
    using ok st alloc low by (simp_all add: sa_def tablesOk_def allAllocated_def)
  have notOff: "TCP_SERVER_STATE_RUNNING \<noteq> TCP_SERVER_STATE_OFF"
    "TCP_SERVER_STATE_OFF < TCP_SERVER_STATE_RUNNING"
    by (simp_all add: state_names)
  have "\<exists>sb. andThen (if (\<not> rtkModeMatches e \<or> \<not> enableTcpServer (settings sa))
                          \<and> tcpServerState sa > TCP_SERVER_STATE_OFF
                       then tcpServerStop e sa else Inr sa) (tcpServerSwitch e) = Inr sb
      \<and> tcpServerClientConnected sb = 0 \<and> tcpServer sb = None
      \<and> \<not> networkUser sb \<and> \<not> onlineTcpServer sb
      \<and> tcpServerState sb = TCP_SERVER_STATE_OFF \<and> tcpServerTimer sb = millis e
      \<and> (\<forall>i \<in> set [0 ..< TCP_SERVER_MAX_CLIENTS]. isSet (tcpServerClientConnected s) i
             \<longrightarrow> (\<exists>c. tcpServerClient sb ! i = Some c \<and> stopped c))"
  proof (cases "\<not> rtkModeMatches e \<or> \<not> enableTcpServer (settings s)")
    case True
    from tcpServerStop_closes [OF sa(1,4,5), of e] sa(2) notOff(1)
    obtain sb where stop: "tcpServerStop e sa = Inr sb" and set: "settings sb = settings sa"
      and res: "tcpServerClientConnected sb = 0" "tcpServer sb = None"
        "\<not> networkUser sb" "\<not> onlineTcpServer sb"
        "tcpServerState sb = TCP_SERVER_STATE_OFF" "tcpServerTimer sb = millis e"
        "\<forall>i \<in> set [0 ..< TCP_SERVER_MAX_CLIENTS]. isSet (tcpServerClientConnected sa) i
             \<longrightarrow> (\<exists>c. tcpServerClient sb ! i = Some c \<and> stopped c)"
      by auto
    have "tcpServerSwitch e sb = Inr sb"
      using True res(5) by (auto simp: tcpServerSwitch_def set sa(3))
    with True stop res show ?thesis
      by (simp add: sa(2,3,6) notOff)
  next
    case False
    with leave have down: "networkIsShuttingDown e" by blast
    define sc where "sc = whenDo (debugOr sa (pdTcpServerData sa)) clearPdData sa"
    have sc: "tablesOk sc" "tcpServerState sc \<noteq> TCP_SERVER_STATE_OFF"
      "tcpServerClientConnected sc = 0 \<or> allAllocated sc"
      "\<forall>k. isSet (tcpServerClientConnected sc) k \<longrightarrow> k < TCP_SERVER_MAX_CLIENTS"
      "tcpServerClientConnected sc = tcpServerClientConnected s"
      using sa notOff(1) by (simp_all add: sc_def whenDo_simps tablesOk_def allAllocated_def)
    from tcpServerStop_closes [OF sc(1,3,4,2), of e]
    obtain sb where stop: "tcpServerStop e sc = Inr sb"
      and res: "tcpServerClientConnected sb = 0" "tcpServer sb = None"
        "\<not> networkUser sb" "\<not> onlineTcpServer sb"
        "tcpServerState sb = TCP_SERVER_STATE_OFF" "tcpServerTimer sb = millis e"
        "\<forall>i \<in> set [0 ..< TCP_SERVER_MAX_CLIENTS]. isSet (tcpServerClientConnected sc) i
             \<longrightarrow> (\<exists>c. tcpServerClient sb ! i = Some c \<and> stopped c)"
      by auto
    have "tcpServerSwitch e sa = Inr sb"
      using down sa(2) by (simp add: tcpServerSwitch_def state_names sc_def [symmetric] stop)
    with False res show ?thesis
      by (simp add: sa(3) sc(5))
  qed
  then obtain sb where mid: "andThen (if (\<not> rtkModeMatches e \<or> \<not> enableTcpServer (settings sa))
                          \<and> tcpServerState sa > TCP_SERVER_STATE_OFF
                       then tcpServerStop e sa else Inr sa) (tcpServerSwitch e) = Inr sb"
    and res: "tcpServerClientConnected sb = 0" "tcpServer sb = None"
      "\<not> networkUser sb" "\<not> onlineTcpServer sb"
      "tcpServerState sb = TCP_SERVER_STATE_OFF" "tcpServerTimer sb = millis e"
      "\<forall>i \<in> set [0 ..< TCP_SERVER_MAX_CLIENTS]. isSet (tcpServerClientConnected s) i
             \<longrightarrow> (\<exists>c. tcpServerClient sb ! i = Some c \<and> stopped c)"
    by blast
  have known': "tcpServerState sb < TCP_SERVER_STATE_MAX" using res(5) off_known by simp
  have assoc: "tcpServerUpdate e s =
      andThen (andThen (if (\<not> rtkModeMatches e \<or> \<not> enableTcpServer (settings sa))
                          \<and> tcpServerState sa > TCP_SERVER_STATE_OFF
                       then tcpServerStop e sa else Inr sa) (tcpServerSwitch e))
        (\<lambda>s3. if pdTcpServerState s3 \<and> \<not> inMainMenu s3
               then tcpServerSetState (tcpServerState s3) s3 else Inr s3)"
    unfolding tcpServerUpdate_def dmw andThen_Inr
    by (simp add: andThen_def split: sum.splits)
  have run: "tcpServerUpdate e s = Inr (sb\<lparr>pdTcpServerState := pdTcpServerState sb \<and> inMainMenu sb\<rparr>)"
    unfolding assoc mid andThen_Inr by (rule final_display [OF known'])
  show ?thesis unfolding run using res by simp
qed

end
